theory Spec2Isabelle
  imports Complex_Main
begin

section \<open>Values, errors and numpy arrays\<close>

text \<open>
  The embedding follows \<^verbatim>\<open>bert.py\<close> and \<^verbatim>\<open>bert_tf_loader.py\<close>.

  Floating-point numbers are idealised as rationals; a numpy result that is
  \<^verbatim>\<open>nan\<close> or \<^verbatim>\<open>inf\<close> (numpy warns, it does not raise) is \<open>None\<close>
  in a \<open>rat option\<close>. Element-wise numpy operations do not depend on the shape of their
  operands, only on all operands having the same shape, so the arrays of the metrics code
  are modelled flattened, as lists. Every exception of the source is a value of
  \<open>error\<close>; \<open>Outside_Model\<close> marks the calls whose numpy behaviour (broadcasting of
  operands of different shapes, zero-dimensional arrays) is not modelled: it is not a
  statement about what the source does there.
\<close>

datatype error =
  KeyError | IndexError | ValueError | TypeError | RuntimeError | ZeroDivisionError
  | SystemExit | Outside_Model

type_synonym anchors = "string \<rightharpoonup> rat list"

section \<open>Masked loss and accuracy: \<^verbatim>\<open>bert_output_stats\<close>\<close>

text \<open>
  \<^verbatim>\<open>label != ignore_index\<close> for a given ignore index,
  \<^verbatim>\<open>np.ones(label.shape, np.bool)\<close> without one.
\<close>

definition padding_mask :: "int option \<Rightarrow> int list \<Rightarrow> bool list" where
  "padding_mask ignore_index label =
     (case ignore_index of
        Some ig \<Rightarrow> map (\<lambda>x. x \<noteq> ig) label
      | None \<Rightarrow> map (\<lambda>x. True) label)"

text \<open>
  \<^verbatim>\<open>np.sum(np.array(padding_masks, dtype=np.int8), axis=0)\<close>: the masks are stacked
  (they must have one shape) and summed over the stacking axis. The sum of an
  \<^verbatim>\<open>int8\<close> array accumulates in the platform integer, so it does not wrap.
\<close>

fun np_sum_axis0 :: "bool list list \<Rightarrow> error + nat list" where
  "np_sum_axis0 [] = Inl Outside_Model"
| "np_sum_axis0 [m] = Inr (map of_bool m)"
| "np_sum_axis0 (m # ms) =
     (case np_sum_axis0 ms of
        Inl e \<Rightarrow> Inl e
      | Inr s \<Rightarrow>
          if length m = length s then Inr (map2 (+) (map of_bool m) s)
          else Inl ValueError)"

text \<open>
  The loop \<^verbatim>\<open>for loss, mask in zip(losses, padding_masks):
  anchors[loss][np.logical_not(mask)] = 0\<close>, which writes into the anchor buffers.
\<close>

fun zero_masked :: "anchors \<Rightarrow> string list \<Rightarrow> bool list list \<Rightarrow> error + anchors" where
  "zero_masked anchors (loss # losses) (msk # masks) =
     (case anchors loss of
        None \<Rightarrow> Inl KeyError
      | Some a \<Rightarrow>
          if length a \<noteq> length msk then Inl IndexError
          else zero_masked (anchors(loss \<mapsto> map2 (\<lambda>x m. if m then x else 0) a msk))
                 losses masks)"
| "zero_masked anchors _ _ = Inr anchors"

text \<open>
  \<^verbatim>\<open>reduce(np.add, map(lambda loss: anchors[loss], losses))\<close>: the buffers are looked
  up lazily, one before each addition; \<^verbatim>\<open>reduce\<close> of no element raises TypeError.
\<close>

fun reduce_np_add :: "anchors \<Rightarrow> rat list \<Rightarrow> string list \<Rightarrow> error + rat list" where
  "reduce_np_add anchors acc [] = Inr acc"
| "reduce_np_add anchors acc (loss # losses) =
     (case anchors loss of
        None \<Rightarrow> Inl KeyError
      | Some a \<Rightarrow>
          if length a = length acc then reduce_np_add anchors (map2 (+) acc a) losses
          else Inl Outside_Model)"

definition combined_loss_of :: "anchors \<Rightarrow> string list \<Rightarrow> error + rat list" where
  "combined_loss_of anchors losses =
     (case losses of
        [] \<Rightarrow> Inl TypeError
      | loss # rest \<Rightarrow>
          (case anchors loss of
             None \<Rightarrow> Inl KeyError
           | Some a \<Rightarrow> reduce_np_add anchors a rest))"

text \<open>Boolean-mask indexing \<^verbatim>\<open>a[mask]\<close> for a mask of the shape of \<open>a\<close>.\<close>

definition np_select :: "bool list \<Rightarrow> 'a list \<Rightarrow> 'a list" where
  "np_select msk a = map snd (filter fst (zip msk a))"

definition np_mean :: "rat list \<Rightarrow> rat option" where
  "np_mean xs = (if xs = [] then None else Some (sum_list xs / of_nat (length xs)))"

text \<open>
  The accuracy loop over
  \<^verbatim>\<open>zip(map(lambda p: anchors[p], predictions), labels, padding_masks)\<close>:
  \<^verbatim>\<open>zip\<close> draws from the lazy \<^verbatim>\<open>map\<close> first, so a prediction buffer is looked up
  before the labels are found exhausted. \<^verbatim>\<open>np.sum(equal[mask])\<close> counts the unmasked
  positions where the prediction equals the label.
\<close>

fun total_correct_loop ::
  "anchors \<Rightarrow> string list \<Rightarrow> int list list \<Rightarrow> bool list list \<Rightarrow> nat \<Rightarrow> error + nat" where
  "total_correct_loop anchors [] labels masks total_correct = Inr total_correct"
| "total_correct_loop anchors (p # predictions) labels masks total_correct =
     (case anchors p of
        None \<Rightarrow> Inl KeyError
      | Some pred \<Rightarrow>
          (case (labels, masks) of
             (label # labels', msk # masks') \<Rightarrow>
               if length pred \<noteq> length label then Inl Outside_Model
               else
                 let equal = map2 (\<lambda>x l. x = of_int l) pred label
                 in total_correct_loop anchors predictions labels' masks'
                      (total_correct + length (filter id (np_select msk equal)))
           | _ \<Rightarrow> Inr total_correct))"

definition bert_output_stats ::
  "int list list \<Rightarrow> anchors \<Rightarrow> string list \<Rightarrow> string list \<Rightarrow> int option
     \<Rightarrow> error + ((rat option \<times> rat option) \<times> anchors)" where
  "bert_output_stats labels anchors losses predictions ignore_index =
     (let padding_masks = map (padding_mask ignore_index) labels in
      case np_sum_axis0 padding_masks of
        Inl e \<Rightarrow> Inl e
      | Inr num_losses \<Rightarrow>
      let master_mask = map (\<lambda>c. c \<noteq> 0) num_losses in
      case zero_masked anchors losses padding_masks of
        Inl e \<Rightarrow> Inl e
      | Inr anchors1 \<Rightarrow>
      case combined_loss_of anchors1 losses of
        Inl e \<Rightarrow> Inl e
      | Inr combined_loss \<Rightarrow>
      if length combined_loss \<noteq> length master_mask then Inl IndexError
      else
        let num_losses1 = np_select master_mask num_losses;
            combined_loss1 = np_select master_mask combined_loss;
            combined_loss2 = map2 (\<lambda>x c. x / of_nat c) combined_loss1 num_losses1;
            step_loss = np_mean combined_loss2
        in
        case total_correct_loop anchors1 predictions labels padding_masks 0 of
          Inl e \<Rightarrow> Inl e
        | Inr total_correct \<Rightarrow>
            let total_attempted = sum_list num_losses1;
                step_accuracy =
                  (if total_attempted = 0 then None
                   else Some (of_nat total_correct / of_nat total_attempted))
            in Inr ((step_loss, step_accuracy), anchors1))"

text \<open>
  \<^verbatim>\<open>bert_pretraining_stats\<close>: the masked-language-model pair with ignore index 0, then
  the next-sentence pair with ignore index 2, on the same anchor buffers. The arguments
  of each call are indexed just before it, so a missing second entry raises only after
  the first call has returned.
\<close>

definition bert_pretraining_stats ::
  "int list list \<Rightarrow> anchors \<Rightarrow> string list \<Rightarrow> string list
     \<Rightarrow> error + ((rat option list \<times> rat option list) \<times> anchors)" where
  "bert_pretraining_stats labels anchors losses predictions =
     (case (labels, losses, predictions) of
        (l0 # labels', s0 # losses', p0 # predictions') \<Rightarrow>
          (case bert_output_stats [l0] anchors [s0] [p0] (Some 0) of
             Inl e \<Rightarrow> Inl e
           | Inr ((mlm_loss, mlm_acc), anchors1) \<Rightarrow>
               (case (labels', losses', predictions') of
                  (l1 # _, s1 # _, p1 # _) \<Rightarrow>
                    (case bert_output_stats [l1] anchors1 [s1] [p1] (Some 2) of
                       Inl e \<Rightarrow> Inl e
                     | Inr ((nsp_loss, nsp_acc), anchors2) \<Rightarrow>
                         Inr (([mlm_loss, nsp_loss], [mlm_acc, nsp_acc]), anchors2))
                | _ \<Rightarrow> Inl IndexError))
      | _ \<Rightarrow> Inl IndexError)"

section \<open>The metrics aggregator: \<^verbatim>\<open>Iteration\<close>\<close>

text \<open>
  The command-line options the modelled functions read. Python integers are unbounded,
  so they are \<open>int\<close>.
\<close>

record args =
  task :: string
  epochs :: int
  epochs_per_save :: int
  steps_per_log :: int
  steps_per_save :: int
  continue_training_from_epoch :: int
  gradient_accumulation_factor :: int
  replication_factor :: int
  batch_size :: int
  batches_per_step :: int
  report_hw_cycle_count :: bool
  gc_profile :: bool
  no_model_save :: bool
  low_latency_inference :: bool

text \<open>
  \<^verbatim>\<open>collections.deque(maxlen=n)\<close>: the object carries its bound. \<^verbatim>\<open>append\<close> adds
  on the right and, when the length then exceeds the bound, removes the leftmost element
  (so a deque of bound 0 stays empty). A negative bound is refused at construction.
\<close>

record 'a deque =
  maxlen :: nat
  items :: "'a list"

definition deque_new :: "int \<Rightarrow> error + 'a deque" where
  "deque_new n = (if n < 0 then Inl ValueError else Inr \<lparr>maxlen = nat n, items = []\<rparr>)"

definition deque_append :: "'a deque \<Rightarrow> 'a \<Rightarrow> 'a deque" where
  "deque_append d x =
     (let xs = items d @ [x]
      in d\<lparr>items := (if length xs > maxlen d then tl xs else xs)\<rparr>)"

text \<open>
  The fields of \<^verbatim>\<open>Iteration\<close>. The windows \<^verbatim>\<open>losses\<close> and \<^verbatim>\<open>accuracies\<close> of the
  single-objective task are the fields \<open>squad_losses\<close> and \<open>squad_accuracies\<close>
  (\<open>losses\<close> names the loss handles everywhere else); the pretraining task has the
  four MLM/NSP windows instead, and an object has only the windows of its task. The
  writer is part of the \<open>world\<close> below.
\<close>

record Iteration =
  start_epoch :: int
  count :: int
  epoch :: int
  epochs :: int
  epochs_per_save :: int
  steps_per_log :: int
  samples_per_step :: int
  steps_per_epoch :: int
  total_steps :: int
  task :: string
  learning_rate :: rat
  durations :: "rat deque"
  cycles :: "int deque"
  mlm_losses :: "rat option deque"
  nsp_losses :: "rat option deque"
  mlm_accuracies :: "rat option deque"
  nsp_accuracies :: "rat option deque"
  squad_losses :: "rat option deque"
  squad_accuracies :: "rat option deque"

text \<open>
  \<^verbatim>\<open>Iteration.__init__\<close>. \<open>recording_steps = None\<close> takes \<^verbatim>\<open>steps_per_epoch\<close>. The
  windows a task does not create are the empty deque of bound 0 here.
\<close>

definition Iteration_init ::
  "args \<Rightarrow> int \<Rightarrow> int \<Rightarrow> int option \<Rightarrow> error + Iteration" where
  "Iteration_init a batches_per_step' steps_per_epoch' recording_steps =
     (let rs = (case recording_steps of None \<Rightarrow> steps_per_epoch' | Some r \<Rightarrow> r);
          pre = (args.task a = ''PRETRAINING'');
          none = \<lparr>maxlen = 0, items = []\<rparr>
      in if rs < 0 then Inl ValueError
         else Inr \<lparr>
           start_epoch = continue_training_from_epoch a,
           count = continue_training_from_epoch a * steps_per_epoch',
           epoch = 0,
           epochs = args.epochs a,
           epochs_per_save = args.epochs_per_save a,
           steps_per_log = args.steps_per_log a,
           samples_per_step =
             batches_per_step' * gradient_accumulation_factor a * replication_factor a
               * batch_size a,
           steps_per_epoch = steps_per_epoch',
           total_steps = steps_per_epoch' * args.epochs a,
           task = args.task a,
           learning_rate = 0,
           durations = \<lparr>maxlen = nat rs, items = []\<rparr>,
           cycles = \<lparr>maxlen = nat rs, items = []\<rparr>,
           mlm_losses = (if pre then \<lparr>maxlen = nat rs, items = []\<rparr> else none),
           nsp_losses = (if pre then \<lparr>maxlen = nat rs, items = []\<rparr> else none),
           mlm_accuracies = (if pre then \<lparr>maxlen = nat rs, items = []\<rparr> else none),
           nsp_accuracies = (if pre then \<lparr>maxlen = nat rs, items = []\<rparr> else none),
           squad_losses = (if pre then none else \<lparr>maxlen = nat rs, items = []\<rparr>),
           squad_accuracies = (if pre then none else \<lparr>maxlen = nat rs, items = []\<rparr>)\<rparr>)"

text \<open>
  \<^verbatim>\<open>np.average\<close> of a window: \<^verbatim>\<open>nan\<close> for an empty window or one that holds a
  \<^verbatim>\<open>nan\<close>.
\<close>

definition np_average :: "rat option list \<Rightarrow> rat option" where
  "np_average xs =
     (if xs = [] \<or> None \<in> set xs then None
      else Some (sum_list (map the xs) / of_nat (length xs)))"

text \<open>A scalar written to the time-series writer: tag, value, step.\<close>

type_synonym scalar = "string \<times> rat option \<times> int"

text \<open>
  \<^verbatim>\<open>Iteration.add_stats(duration, hw_cycles, labels, anchors, losses, predictions)\<close>.
  The statistics function is chosen by the task (the single-objective one is called
  without an ignore index). The result is the updated object, the anchor buffers (the
  statistics write zeros into them) and the scalars written, in order.
\<close>

definition add_stats ::
  "Iteration \<Rightarrow> rat \<Rightarrow> int option \<Rightarrow> int list list \<Rightarrow> anchors \<Rightarrow> string list \<Rightarrow> string list
     \<Rightarrow> error + (Iteration \<times> anchors \<times> scalar list)" where
  "add_stats it duration hw_cycles labels anchors losses predictions =
     (let it1 = it\<lparr>durations := deque_append (durations it) duration\<rparr>;
          it2 = (case hw_cycles of
                   None \<Rightarrow> it1
                 | Some c \<Rightarrow> if c \<noteq> 0 then it1\<lparr>cycles := deque_append (cycles it1) c\<rparr> else it1);
          lr = ((''defaultLearningRate'', Some (learning_rate it2), count it2) :: scalar)
      in if Iteration.task it2 = ''PRETRAINING'' then
           (case bert_pretraining_stats labels anchors losses predictions of
              Inl e \<Rightarrow> Inl e
            | Inr ((loss, accuracy), anchors1) \<Rightarrow>
                (case (loss, accuracy) of
                   ([loss0, loss1], [accuracy0, accuracy1]) \<Rightarrow>
                     let it3 = it2\<lparr>mlm_losses := deque_append (mlm_losses it2) loss0,
                                    nsp_losses := deque_append (nsp_losses it2) loss1,
                                    mlm_accuracies := deque_append (mlm_accuracies it2) accuracy0,
                                    nsp_accuracies := deque_append (nsp_accuracies it2) accuracy1\<rparr>
                     in Inr (it3, anchors1,
                          [lr,
                           (''loss/MLM'', np_average (items (mlm_losses it3)), count it3),
                           (''loss/NSP'', np_average (items (nsp_losses it3)), count it3),
                           (''accuracy/MLM'', np_average (items (mlm_accuracies it3)), count it3),
                           (''accuracy/NSP'', np_average (items (nsp_accuracies it3)), count it3)])
                 | _ \<Rightarrow> Inl IndexError))
         else
           (case bert_output_stats labels anchors losses predictions None of
              Inl e \<Rightarrow> Inl e
            | Inr ((loss, accuracy), anchors1) \<Rightarrow>
                let it3 = it2\<lparr>squad_losses := deque_append (squad_losses it2) loss,
                               squad_accuracies := deque_append (squad_accuracies it2) accuracy\<rparr>
                in Inr (it3, anchors1,
                     [lr,
                      (''loss'', np_average (items (squad_losses it3)), count it3),
                      (''accuracy'', np_average (items (squad_accuracies it3)), count it3)])))"

text \<open>
  The property \<^verbatim>\<open>throughput\<close>: \<^verbatim>\<open>np.divide(self.samples_per_step, self.durations)\<close>,
  element by element; a division by a zero duration is \<^verbatim>\<open>inf\<close> or \<^verbatim>\<open>nan\<close>.
\<close>

definition throughput :: "Iteration \<Rightarrow> rat option list" where
  "throughput it =
     map (\<lambda>d. if d = 0 then None else Some (of_int (samples_per_step it) / d))
       (items (durations it))"

text \<open>
  What \<^verbatim>\<open>report_stats\<close> formats into its log line; the formatting of the numbers is not
  modelled.
\<close>

record report =
  r_iteration :: int
  r_epoch :: rat
  r_epochs :: int
  r_losses :: "rat option list"
  r_accuracies :: "rat option list"
  r_learning_rate :: rat
  r_duration :: "rat option"
  r_throughput :: "rat option"
  r_cycles :: "rat option option"

text \<open>
  \<^verbatim>\<open>Iteration.report_stats\<close>, in state-passing form: the outcome (the logged report, or
  the exception) and the object after the call. \<^verbatim>\<open>self.count/self.steps_per_epoch\<close>
  divides Python integers and raises on a zero divisor; the averages are numpy's.
\<close>

definition report_stats :: "Iteration \<Rightarrow> (error + report) \<times> Iteration" where
  "report_stats it =
     (if steps_per_epoch it = 0 then (Inl ZeroDivisionError, it)
      else
        (Inr \<lparr>
           r_iteration = count it,
           r_epoch = of_int (count it) / of_int (steps_per_epoch it),
           r_epochs = Iteration.epochs it,
           r_losses =
             (if Iteration.task it = ''PRETRAINING''
              then [np_average (items (mlm_losses it)), np_average (items (nsp_losses it))]
              else [np_average (items (squad_losses it))]),
           r_accuracies =
             (if Iteration.task it = ''PRETRAINING''
              then [np_average (items (mlm_accuracies it)),
                    np_average (items (nsp_accuracies it))]
              else [np_average (items (squad_accuracies it))]),
           r_learning_rate = learning_rate it,
           r_duration = np_average (map Some (items (durations it))),
           r_throughput = np_average (throughput it),
           r_cycles =
             (if items (cycles it) \<noteq> []
              then Some (np_average (map (\<lambda>c. Some (of_int c)) (items (cycles it))))
              else None)\<rparr>,
         it))"

section \<open>The training loop driver\<close>

text \<open>
  A batch record maps tensor names to host buffers; only the label fields are read by
  the modelled code, so a batch is a map to integer arrays.
\<close>

type_synonym batch = "string \<rightharpoonup> int list"

text \<open>
  A persisted checkpoint: the epoch in the file name (if any), whether the step is in
  the file name, and the step. \<^verbatim>\<open>save_model_and_stats\<close> builds the name
  \<^verbatim>\<open>model[_epoch][:step].onnx\<close> from them.
\<close>

record save_event =
  save_epoch :: "int option"
  step_in_filename :: bool
  save_step :: int

text \<open>
  Everything the loop driver acts on: the \<^verbatim>\<open>Iteration\<close> object, the anchor buffers the
  engine fills, and the observable effects in order of occurrence: scalars written,
  engine runs, reports logged, optimizer updates pushed, checkpoints saved.
\<close>

record world =
  iteration :: Iteration
  anchor_buffers :: anchors
  scalars :: "scalar list"
  engine_runs :: nat
  reports :: "report list"
  optimizer_updates :: nat
  saves :: "save_event list"

text \<open>
  The external collaborators of one call of \<^verbatim>\<open>bert_process_data\<close>, none of which is
  code of this repository: what \<^verbatim>\<open>session.run\<close> leaves in the anchor buffers, the
  wall-clock time it took, \<^verbatim>\<open>session.getCycleCount()\<close>, and the optimizer factory's
  \<^verbatim>\<open>should_update\<close> and \<^verbatim>\<open>update_and_create\<close>. Of the factory's effect on the
  \<^verbatim>\<open>Iteration\<close> object only the learning rate is taken (the field that, by the comment
  in \<^verbatim>\<open>Iteration.__init__\<close>, "should get overridden").
\<close>

record collaborators =
  session_run :: "batch \<Rightarrow> anchors \<Rightarrow> anchors"
  run_duration :: rat
  cycle_count :: int
  should_update :: "Iteration \<Rightarrow> bool"
  update_and_create :: "Iteration \<Rightarrow> rat"

text \<open>\<^verbatim>\<open>[data[label] for label in labels]\<close>.\<close>

fun labels_data_of :: "batch \<Rightarrow> string list \<Rightarrow> error + int list list" where
  "labels_data_of data [] = Inr []"
| "labels_data_of data (label # labels) =
     (case data label of
        None \<Rightarrow> Inl KeyError
      | Some a \<Rightarrow>
          (case labels_data_of data labels of
             Inl e \<Rightarrow> Inl e
           | Inr as \<Rightarrow> Inr (a # as)))"

text \<open>\<^verbatim>\<open>np.any([np.any(label) for label in labels_data])\<close>: some element is non-zero.\<close>

definition any_label :: "int list list \<Rightarrow> bool" where
  "any_label labels_data = list_ex (\<lambda>label. list_ex (\<lambda>x. x \<noteq> 0) label) labels_data"

text \<open>
  \<^verbatim>\<open>bert_process_data\<close>. The guard returns before anything else happens; with
  \<^verbatim>\<open>gc_profile\<close> the process exits after the engine run; a report is logged when the
  step count is a multiple of \<^verbatim>\<open>steps_per_log\<close> (Python's \<^verbatim>\<open>%\<close> raises on a zero
  modulus); the step count is incremented last.
\<close>

definition bert_process_data ::
  "args \<Rightarrow> collaborators \<Rightarrow> string list \<Rightarrow> batch \<Rightarrow> string list \<Rightarrow> string list \<Rightarrow> world
     \<Rightarrow> error + world" where
  "bert_process_data a env labels data losses predictions w =
     (case labels_data_of data labels of
        Inl e \<Rightarrow> Inl e
      | Inr labels_data \<Rightarrow>
          if \<not> any_label labels_data then Inr w
          else
            let anchors1 = session_run env data (anchor_buffers w);
                runs1 = engine_runs w + 1;
                duration = run_duration env;
                hw_cycles = (if report_hw_cycle_count a then Some (cycle_count env) else None)
            in if gc_profile a then Inl SystemExit
               else
                 (case add_stats (iteration w) duration hw_cycles labels_data anchors1
                         losses predictions of
                    Inl e \<Rightarrow> Inl e
                  | Inr (it1, anchors2, written) \<Rightarrow>
                      if Iteration.steps_per_log it1 = 0 then Inl ZeroDivisionError
                      else
                        let logged =
                              (if count it1 mod Iteration.steps_per_log it1 = 0
                               then Some (fst (report_stats it1)) else None)
                        in (case logged of
                              Some (Inl e) \<Rightarrow> Inl e
                            | _ \<Rightarrow>
                                let reports1 =
                                      (case logged of
                                         Some (Inr r) \<Rightarrow> reports w @ [r]
                                       | _ \<Rightarrow> reports w);
                                    upd = should_update env it1;
                                    it2 = (if upd
                                           then it1\<lparr>learning_rate := update_and_create env it1\<rparr>
                                           else it1);
                                    it3 = it2\<lparr>count := count it2 + 1\<rparr>
                                in Inr (w\<lparr>iteration := it3,
                                          anchor_buffers := anchors2,
                                          scalars := scalars w @ written,
                                          engine_runs := runs1,
                                          reports := reports1,
                                          optimizer_updates :=
                                            optimizer_updates w + (if upd then 1 else 0)\<rparr>))))"

text \<open>
  \<^verbatim>\<open>save_model_and_stats(args, session, writer, step, epoch=None,
  step_in_filename=False)\<close>.
\<close>

definition save_model_and_stats :: "args \<Rightarrow> world \<Rightarrow> int \<Rightarrow> int option \<Rightarrow> bool \<Rightarrow> world" where
  "save_model_and_stats a w step epoch' step_in_filename' =
     (if \<not> no_model_save a
      then w\<lparr>saves := saves w @
                [\<lparr>save_epoch = epoch', step_in_filename = step_in_filename',
                  save_step = step\<rparr>]\<rparr>
      else w)"




section \<open>Round-trip latency: \<^verbatim>\<open>compute_latency\<close>\<close>

text \<open>
  The timestamp tables are dictionaries from a tensor id to the list of its timestamps;
  \<^verbatim>\<open>min\<close> and \<^verbatim>\<open>max\<close> over a dictionary go through the keys in insertion order and
  keep the first best one, so the tables are association lists.
\<close>

type_synonym times = "(string \<times> rat list) list"

text \<open>
  \<^verbatim>\<open>min(start_times, key=lambda k: start_times[k][-1])\<close>: the key function is applied
  to every key (an empty timestamp list raises IndexError), an empty dictionary raises
  ValueError, and of several smallest keys the first wins.
\<close>

fun last_times :: "times \<Rightarrow> error + (string \<times> rat) list" where
  "last_times [] = Inr []"
| "last_times ((k, ts) # rest) =
     (if ts = [] then Inl IndexError
      else (case last_times rest of
              Inl e \<Rightarrow> Inl e
            | Inr r \<Rightarrow> Inr ((k, last ts) # r)))"

fun first_min :: "(string \<times> rat) \<Rightarrow> (string \<times> rat) list \<Rightarrow> string" where
  "first_min (k, v) [] = k"
| "first_min (k, v) ((k', v') # rest) =
     (if v' < v then first_min (k', v') rest else first_min (k, v) rest)"

fun first_max :: "(string \<times> rat) \<Rightarrow> (string \<times> rat) list \<Rightarrow> string" where
  "first_max (k, v) [] = k"
| "first_max (k, v) ((k', v') # rest) =
     (if v' > v then first_max (k', v') rest else first_max (k, v) rest)"

definition get_timing_start_anchor :: "times \<Rightarrow> error + string" where
  "get_timing_start_anchor start_times =
     (case last_times start_times of
        Inl e \<Rightarrow> Inl e
      | Inr [] \<Rightarrow> Inl ValueError
      | Inr (kv # rest) \<Rightarrow> Inr (first_min kv rest))"

definition get_timing_end_anchor :: "times \<Rightarrow> error + string" where
  "get_timing_end_anchor end_times =
     (case last_times end_times of
        Inl e \<Rightarrow> Inl e
      | Inr [] \<Rightarrow> Inl ValueError
      | Inr (kv # rest) \<Rightarrow> Inr (first_max kv rest))"

text \<open>
  \<^verbatim>\<open>compute_latency\<close>. Outside low-latency SQuAD inference it returns three
  \<^verbatim>\<open>None\<close>. The round trips pair the timestamps of the start anchor with those of the
  end anchor (\<^verbatim>\<open>zip\<close> stops at the shorter list).
\<close>

definition compute_latency ::
  "args \<Rightarrow> times \<Rightarrow> times \<Rightarrow> error + (rat option \<times> rat option \<times> rat option)" where
  "compute_latency a start_times end_times =
     (if low_latency_inference a \<and> args.task a = ''SQUAD'' then
        (case get_timing_start_anchor start_times of
           Inl e \<Rightarrow> Inl e
         | Inr start_id \<Rightarrow>
        (case get_timing_end_anchor end_times of
           Inl e \<Rightarrow> Inl e
         | Inr end_id \<Rightarrow>
        (case (map_of start_times start_id, map_of end_times end_id) of
           (Some s, Some e) \<Rightarrow>
             let rtts = map (\<lambda>v. snd v - fst v) (zip s e)
             in if int (length rtts) \<noteq> batches_per_step a then Inl RuntimeError
                else if batches_per_step a = 0 then Inl ZeroDivisionError
                else if rtts = [] then Inl ValueError
                else Inr (Some (sum_list rtts / of_int (batches_per_step a)),
                          Some (Min (set rtts)), Some (Max (set rtts)))
         | _ \<Rightarrow> Inl KeyError)))
      else Inr (None, None, None))"

section \<open>The checkpoint remapper: \<^verbatim>\<open>bert_tf_loader.py\<close>\<close>

text \<open>
  A checkpoint tensor is a one- or two-dimensional array with an element type. A
  two-dimensional array carries its number of columns, so that an array without rows
  still has a shape; its rows all have that length. Of the element types only the two
  the loader distinguishes are modelled.
\<close>

datatype dtype = Float16 | Float32

datatype ndarray = Array1 dtype "rat list" | Array2 dtype nat "rat list list"

fun array_dtype :: "ndarray \<Rightarrow> dtype" where
  "array_dtype (Array1 d xs) = d"
| "array_dtype (Array2 d c rows) = d"

fun shape :: "ndarray \<Rightarrow> nat list" where
  "shape (Array1 d xs) = [length xs]"
| "shape (Array2 d c rows) = [length rows, c]"

text \<open>The fields of \<^verbatim>\<open>BertConfig\<close> that the loader reads.\<close>

record config =
  hidden_size :: nat
  vocab_length :: nat
  dtype :: dtype
  custom_ops :: "string list"
  num_layers :: nat

text \<open>
  \<^verbatim>\<open>array.astype(np.float16)\<close>: every element is rounded to half precision. The
  rounding function is a parameter \<open>narrow\<close> of the model. Storing into a buffer of
  another element type converts in the same way; widening is exact.
\<close>

fun astype :: "(rat \<Rightarrow> rat) \<Rightarrow> dtype \<Rightarrow> ndarray \<Rightarrow> ndarray" where
  "astype narrow d (Array1 d' xs) =
     Array1 d (if d' = Float32 \<and> d = Float16 then map narrow xs else xs)"
| "astype narrow d (Array2 d' c rows) =
     Array2 d c (if d' = Float32 \<and> d = Float16 then map (map narrow) rows else rows)"

definition cast_to :: "(rat \<Rightarrow> rat) \<Rightarrow> dtype \<Rightarrow> dtype \<Rightarrow> rat \<Rightarrow> rat" where
  "cast_to narrow from to x = (if from = Float32 \<and> to = Float16 then narrow x else x)"

text \<open>
  \<^verbatim>\<open>np.empty(shape, dtype)\<close>: the contents are whatever the memory held, given here by
  a parameter.
\<close>

definition np_empty :: "(nat \<Rightarrow> nat \<Rightarrow> rat) \<Rightarrow> dtype \<Rightarrow> nat \<Rightarrow> nat \<Rightarrow> ndarray" where
  "np_empty garbage d r c = Array2 d c (map (\<lambda>i. map (\<lambda>j. garbage i j) [0..<c]) [0..<r])"

text \<open>
  \<^verbatim>\<open>buffer[:, start_idx:end_idx] = array\<close>: the slice is clipped to the columns of the
  buffer, the array is broadcast to the shape of the slice (a dimension must equal the
  slice's or be 1) and converted to the buffer's element type. The broadcast of a
  one-dimensional array is not modelled.
\<close>

definition set_columns ::
  "(rat \<Rightarrow> rat) \<Rightarrow> ndarray \<Rightarrow> nat \<Rightarrow> nat \<Rightarrow> ndarray \<Rightarrow> error + ndarray" where
  "set_columns narrow buffer start_idx end_idx array =
     (case (buffer, array) of
        (Array2 bd bc brows, Array2 ad ac arows) \<Rightarrow>
          let s = min start_idx bc; e = min end_idx bc; w = e - s
          in if (length arows = length brows \<or> length arows = 1) \<and> (ac = w \<or> ac = 1)
             then
               let arows1 = (if length arows = length brows then arows
                             else replicate (length brows) (arows ! 0));
                   arows2 = map (\<lambda>r. if ac = w then r else replicate w (r ! 0)) arows1
               in Inr (Array2 bd bc
                         (map2 (\<lambda>brow arow. take s brow @ map (cast_to narrow ad bd) arow
                                                @ drop e brow)
                            brows arows2))
             else Inl ValueError
      | _ \<Rightarrow> Inl Outside_Model)"

text \<open>\<^verbatim>\<open>np.transpose\<close>; a one-dimensional array is its own transpose.\<close>

fun np_transpose :: "ndarray \<Rightarrow> ndarray" where
  "np_transpose (Array1 d xs) = Array1 d xs"
| "np_transpose (Array2 d c rows) =
     Array2 d (length rows) (map (\<lambda>j. map (\<lambda>r. r ! j) rows) [0..<c])"

text \<open>\<^verbatim>\<open>str.split(sep)\<close> for a one-character separator.\<close>

fun split_on :: "char \<Rightarrow> string \<Rightarrow> string list" where
  "split_on c [] = [[]]"
| "split_on c (x # xs) =
     (if x = c then [] # split_on c xs
      else (case split_on c xs of
              w # ws \<Rightarrow> (x # w) # ws
            | [] \<Rightarrow> [[x]]))"

text \<open>The dictionary \<^verbatim>\<open>qkv_tensor_range\<close> of \<^verbatim>\<open>generate_initializers\<close>.\<close>

definition qkv_tensor_range :: "config \<Rightarrow> string \<rightharpoonup> nat \<times> nat" where
  "qkv_tensor_range cfg =
     [''query'' \<mapsto> (0, hidden_size cfg),
      ''key'' \<mapsto> (hidden_size cfg, hidden_size cfg * 2),
      ''value'' \<mapsto> (hidden_size cfg * 2, hidden_size cfg * 3)]"

text \<open>
  The vocabulary adaptation of the word-embedding table: zero rows of
  \<^verbatim>\<open>hidden_size\<close> columns are appended when the target vocabulary is larger
  (\<^verbatim>\<open>np.concatenate\<close> raises unless the table is two-dimensional with that many
  columns), otherwise the table is cropped to its first \<^verbatim>\<open>vocab_length\<close> rows (the
  two-index slice raises on a one-dimensional array).
\<close>

definition pad_or_crop :: "config \<Rightarrow> ndarray \<Rightarrow> error + ndarray" where
  "pad_or_crop cfg array =
     (let tf_vocab_length = hd (shape array);
          diff = int (vocab_length cfg) - int tf_vocab_length
      in if diff > 0 then
           (case array of
              Array2 d c rows \<Rightarrow>
                if c = hidden_size cfg
                then Inr (Array2 d c (rows @ replicate (nat diff) (replicate (hidden_size cfg) 0)))
                else Inl ValueError
            | Array1 d xs \<Rightarrow> Inl ValueError)
         else
           (case array of
              Array2 d c rows \<Rightarrow> Inr (Array2 d c (take (vocab_length cfg) rows))
            | Array1 d xs \<Rightarrow> Inl IndexError))"

text \<open>
  One turn of the loop of \<^verbatim>\<open>generate_initializers\<close>, for the pair
  \<open>(name, array)\<close>. \<open>garbage\<close> gives the contents of the buffer that
  \<^verbatim>\<open>np.empty\<close> allocates for a target.
\<close>

definition initializer_step ::
  "(rat \<Rightarrow> rat) \<Rightarrow> (string \<Rightarrow> nat \<Rightarrow> nat \<Rightarrow> rat) \<Rightarrow> (string \<rightharpoonup> string) \<Rightarrow> config
     \<Rightarrow> (string \<rightharpoonup> ndarray) \<Rightarrow> string \<Rightarrow> ndarray \<Rightarrow> error + (string \<rightharpoonup> ndarray)" where
  "initializer_step narrow garbage mapping cfg initializers name array0 =
     (case mapping name of
        None \<Rightarrow> Inl KeyError
      | Some target \<Rightarrow>
          let array = (if array_dtype array0 = Float32 \<and> dtype cfg = Float16
                       then astype narrow (dtype cfg) array0 else array0)
          in if drop (length target - 3) target = ''QKV'' then
               (let parts = split_on CHR ''/'' name
                in if length parts < 2 then Inl IndexError
                   else
                     let qkv_part = parts ! (length parts - 2) in
                     (case (case initializers target of
                              Some b \<Rightarrow> Inr b
                            | None \<Rightarrow>
                                (case array of
                                   Array2 d c rows \<Rightarrow>
                                     Inr (np_empty (garbage target) d (length rows) (c * 3))
                                 | Array1 d xs \<Rightarrow> Inl IndexError)) of
                        Inl e \<Rightarrow> Inl e
                      | Inr buffer \<Rightarrow>
                          (case qkv_tensor_range cfg qkv_part of
                             None \<Rightarrow> Inl KeyError
                           | Some (start_idx, end_idx) \<Rightarrow>
                               (case set_columns narrow buffer start_idx end_idx array of
                                  Inl e \<Rightarrow> Inl e
                                | Inr buffer1 \<Rightarrow> Inr (initializers(target \<mapsto> buffer1))))))
             else
               (case (if target = ''Embedding/Embedding_Dict'' then pad_or_crop cfg array
                      else Inr array) of
                  Inl e \<Rightarrow> Inl e
                | Inr array1 \<Rightarrow>
                    let array2 =
                          (if ''gather'' \<in> set (custom_ops cfg)
                              \<and> target \<in> set [''Embedding/Embedding_Dict'',
                                                ''Embedding/Positional_Dict'']
                           then np_transpose array1 else array1)
                    in Inr (initializers(target \<mapsto> array2))))"

fun initializer_loop ::
  "(rat \<Rightarrow> rat) \<Rightarrow> (string \<Rightarrow> nat \<Rightarrow> nat \<Rightarrow> rat) \<Rightarrow> (string \<rightharpoonup> string) \<Rightarrow> config
     \<Rightarrow> (string \<rightharpoonup> ndarray) \<Rightarrow> (string \<times> ndarray) list \<Rightarrow> error + (string \<rightharpoonup> ndarray)" where
  "initializer_loop narrow garbage mapping cfg initializers [] = Inr initializers"
| "initializer_loop narrow garbage mapping cfg initializers ((name, array) # rest) =
     (case initializer_step narrow garbage mapping cfg initializers name array of
        Inl e \<Rightarrow> Inl e
      | Inr initializers1 \<Rightarrow> initializer_loop narrow garbage mapping cfg initializers1 rest)"

text \<open>
  \<^verbatim>\<open>generate_initializers(mapping, config, map_names, load_data)\<close>: the loop over
  \<^verbatim>\<open>zip(map_names, load_data)\<close>, from the empty dictionary.
\<close>

definition generate_initializers ::
  "(rat \<Rightarrow> rat) \<Rightarrow> (string \<Rightarrow> nat \<Rightarrow> nat \<Rightarrow> rat) \<Rightarrow> (string \<rightharpoonup> string) \<Rightarrow> config
     \<Rightarrow> string list \<Rightarrow> ndarray list \<Rightarrow> error + (string \<rightharpoonup> ndarray)" where
  "generate_initializers narrow garbage mapping cfg map_names load_data =
     initializer_loop narrow garbage mapping cfg Map.empty (zip map_names load_data)"

text \<open>
  \<^verbatim>\<open>get_tf_mapping\<close>: the fixed entries, then the twelve entries of each layer, later
  entries replacing earlier ones as \<^verbatim>\<open>dict.update\<close> does. \<open>show_nat\<close> is the
  decimal numeral an f-string prints.
\<close>

fun show_nat_fuel :: "nat \<Rightarrow> nat \<Rightarrow> string" where
  "show_nat_fuel 0 n = [''0123456789'' ! (n mod 10)]"
| "show_nat_fuel (Suc k) n =
     (if n < 10 then [''0123456789'' ! n]
      else show_nat_fuel k (n div 10) @ [''0123456789'' ! (n mod 10)])"

definition show_nat :: "nat \<Rightarrow> string" where
  "show_nat n = show_nat_fuel n n"

definition layer_mapping :: "nat \<Rightarrow> (string \<times> string) list" where
  "layer_mapping i =
     (let src = ''bert/encoder/layer_'' @ show_nat i; tgt = ''Layer'' @ show_nat i in
      [(src @ ''/attention/self/query/kernel'', tgt @ ''/Attention/QKV''),
       (src @ ''/attention/self/key/kernel'', tgt @ ''/Attention/QKV''),
       (src @ ''/attention/self/value/kernel'', tgt @ ''/Attention/QKV''),
       (src @ ''/attention/output/dense/kernel'', tgt @ ''/Attention/Out''),
       (src @ ''/attention/output/LayerNorm/gamma'', tgt @ ''/Attention/Gamma''),
       (src @ ''/attention/output/LayerNorm/beta'', tgt @ ''/Attention/Beta''),
       (src @ ''/intermediate/dense/kernel'', tgt @ ''/FF/1/W''),
       (src @ ''/intermediate/dense/bias'', tgt @ ''/FF/1/B''),
       (src @ ''/output/dense/kernel'', tgt @ ''/FF/2/W''),
       (src @ ''/output/dense/bias'', tgt @ ''/FF/2/B''),
       (src @ ''/output/LayerNorm/gamma'', tgt @ ''/FF/Gamma''),
       (src @ ''/output/LayerNorm/beta'', tgt @ ''/FF/Beta'')])"

definition get_tf_mapping :: "config \<Rightarrow> (string \<rightharpoonup> string)" where
  "get_tf_mapping cfg =
     fold (\<lambda>i tf_to_onnx. tf_to_onnx ++ map_of (layer_mapping i)) [0..<num_layers cfg]
       (map_of
          [(''bert/embeddings/word_embeddings'', ''Embedding/Embedding_Dict''),
           (''bert/embeddings/position_embeddings'', ''Embedding/Positional_Dict''),
           (''bert/embeddings/token_type_embeddings'', ''Embedding/Segment_Dict''),
           (''bert/embeddings/LayerNorm/gamma'', ''Embedding/Gamma''),
           (''bert/embeddings/LayerNorm/beta'', ''Embedding/Beta''),
           (''cls/predictions/transform/dense/kernel'', ''CLS/LMPredictionW''),
           (''cls/predictions/transform/dense/bias'', ''CLS/LMPredictionB''),
           (''cls/predictions/transform/LayerNorm/gamma'', ''CLS/Gamma''),
           (''cls/predictions/transform/LayerNorm/beta'', ''CLS/Beta'')])"

section \<open>Call sequences and example inputs\<close>

text \<open>Options of a low-latency SQuAD run, used by the examples.\<close>

definition squad_args :: args where
  "squad_args = \<lparr>args.task = ''SQUAD'', args.epochs = 1, args.epochs_per_save = 0,
     args.steps_per_log = 100, steps_per_save = 50, continue_training_from_epoch = 0,
     gradient_accumulation_factor = 1, replication_factor = 1, batch_size = 1,
     batches_per_step = 2, report_hw_cycle_count = False, gc_profile = False,
     no_model_save = False, low_latency_inference = True\<rparr>"

text \<open>
  The arguments of one \<^verbatim>\<open>add_stats\<close> call: duration, hardware cycles, label arrays,
  anchor buffers, loss handles, prediction handles; and a sequence of calls on one
  \<^verbatim>\<open>Iteration\<close> object, which ends at the first exception.
\<close>

type_synonym stats_call = "rat \<times> int option \<times> int list list \<times> anchors \<times> string list \<times> string list"

fun add_stats_seq :: "Iteration \<Rightarrow> stats_call list \<Rightarrow> error + Iteration" where
  "add_stats_seq it [] = Inr it"
| "add_stats_seq it ((duration, hw_cycles, labels, anchors, losses, predictions) # calls) =
     (case add_stats it duration hw_cycles labels anchors losses predictions of
        Inl e \<Rightarrow> Inl e
      | Inr (it1, anchors1, written) \<Rightarrow> add_stats_seq it1 calls)"

text \<open>
  What a call inserts into the loss and accuracy windows: the (loss, accuracy) pair of
  each objective, as the statistics function of the task computes it; and what it
  inserts into the cycles window (\<^verbatim>\<open>if hw_cycles:\<close> is false for \<^verbatim>\<open>None\<close> and 0).
\<close>

definition call_stats :: "string \<Rightarrow> stats_call \<Rightarrow> error + (rat option \<times> rat option) list" where
  "call_stats task' call =
     (case call of (duration, hw_cycles, labels, anchors, losses, predictions) \<Rightarrow>
        if task' = ''PRETRAINING'' then
          (case bert_pretraining_stats labels anchors losses predictions of
             Inl e \<Rightarrow> Inl e
           | Inr ((loss, accuracy), anchors1) \<Rightarrow> Inr (zip loss accuracy))
        else
          (case bert_output_stats labels anchors losses predictions None of
             Inl e \<Rightarrow> Inl e
           | Inr ((loss, accuracy), anchors1) \<Rightarrow> Inr [(loss, accuracy)]))"

definition call_cycles :: "stats_call \<Rightarrow> int list" where
  "call_cycles call =
     (case fst (snd call) of None \<Rightarrow> [] | Some c \<Rightarrow> if c \<noteq> 0 then [c] else [])"

text \<open>
  An example call: one label, one position, duration \<open>k\<close> and loss \<open>10 k\<close>.
\<close>

definition example_call :: "int \<Rightarrow> stats_call" where
  "example_call k =
     (of_int k, None, [[1]], [''l'' \<mapsto> [of_int k * 10], ''p'' \<mapsto> [1]], [''l''], [''p''])"

text \<open>
  The object that \<^verbatim>\<open>Iteration(args, 2, 10, writer, 3)\<close> constructs for these options,
  a world around it in which nothing has happened yet, and collaborators whose engine
  leaves one loss and one prediction of one position in the anchor buffers.
\<close>

definition example_iteration :: Iteration where
  "example_iteration =
     \<lparr>start_epoch = 0, count = 0, epoch = 0, epochs = 1, epochs_per_save = 0,
      steps_per_log = 100, samples_per_step = 2, steps_per_epoch = 10, total_steps = 10,
      task = ''SQUAD'', learning_rate = 0,
      durations = \<lparr>maxlen = 3, items = []\<rparr>, cycles = \<lparr>maxlen = 3, items = []\<rparr>,
      mlm_losses = \<lparr>maxlen = 0, items = []\<rparr>, nsp_losses = \<lparr>maxlen = 0, items = []\<rparr>,
      mlm_accuracies = \<lparr>maxlen = 0, items = []\<rparr>,
      nsp_accuracies = \<lparr>maxlen = 0, items = []\<rparr>,
      squad_losses = \<lparr>maxlen = 3, items = []\<rparr>,
      squad_accuracies = \<lparr>maxlen = 3, items = []\<rparr>\<rparr>"

definition example_world :: world where
  "example_world =
     \<lparr>iteration = example_iteration, anchor_buffers = Map.empty, scalars = [],
      engine_runs = 0, reports = [], optimizer_updates = 0, saves = []\<rparr>"

definition example_env :: collaborators where
  "example_env =
     \<lparr>session_run = (\<lambda>data buffers. [''l'' \<mapsto> [10], ''p'' \<mapsto> [1]]),
      run_duration = 1, cycle_count = 0,
      should_update = (\<lambda>it. False), update_and_create = (\<lambda>it. 0)\<rparr>"






subsection \<open>Well-shaped calls, and the statistics as the specification words them\<close>

text \<open>
  \<open>bound_shape anchors n h\<close>: the handle \<open>h\<close> names a buffer of \<open>n\<close> elements in
  the anchor dictionary.
\<close>

definition bound_shape :: "anchors \<Rightarrow> nat \<Rightarrow> string \<Rightarrow> bool" where
  "bound_shape anchors n h = (case anchors h of Some a \<Rightarrow> length a = n | None \<Rightarrow> False)"

text \<open>
  The specification's reading of the statistics, position by position: a position of a
  label is unmasked when the label differs from the ignore value (every position is,
  without an ignore value); \<open>spec_num_losses\<close> counts the objectives unmasked at a
  position; the retained positions are those with a non-zero count; the step loss is the
  mean over the retained positions of the summed masked loss divided by the count; the
  accuracy is the number of unmasked positions with a correct prediction over the number
  of unmasked positions. These definitions are compared with \<open>bert_output_stats\<close>
  below, they are not a model of the code.
\<close>

definition spec_unmasked :: "int option \<Rightarrow> int \<Rightarrow> bool" where
  "spec_unmasked ignore_index x = (case ignore_index of Some ig \<Rightarrow> x \<noteq> ig | None \<Rightarrow> True)"

definition spec_num_losses :: "int option \<Rightarrow> int list list \<Rightarrow> nat \<Rightarrow> nat" where
  "spec_num_losses ig labels i = length (filter (\<lambda>label. spec_unmasked ig (label ! i)) labels)"

definition spec_retained :: "int option \<Rightarrow> int list list \<Rightarrow> nat \<Rightarrow> nat list" where
  "spec_retained ig labels n = filter (\<lambda>i. spec_num_losses ig labels i \<noteq> 0) [0..<n]"

definition spec_summed_loss :: "int option \<Rightarrow> int list list \<Rightarrow> rat list list \<Rightarrow> nat \<Rightarrow> rat" where
  "spec_summed_loss ig labels loss_arrays i =
     sum_list (map (\<lambda>(label, loss). if spec_unmasked ig (label ! i) then loss ! i else 0)
                 (zip labels loss_arrays))"

definition spec_step_loss ::
  "int option \<Rightarrow> int list list \<Rightarrow> rat list list \<Rightarrow> nat \<Rightarrow> rat option" where
  "spec_step_loss ig labels loss_arrays n =
     (let retained = spec_retained ig labels n in
      if retained = [] then None
      else Some (sum_list (map (\<lambda>i. spec_summed_loss ig labels loss_arrays i
                                      / of_nat (spec_num_losses ig labels i)) retained)
                 / of_nat (length retained)))"

definition spec_correct :: "int option \<Rightarrow> int list list \<Rightarrow> rat list list \<Rightarrow> nat \<Rightarrow> nat" where
  "spec_correct ig labels pred_arrays n =
     sum_list (map (\<lambda>(label, pred).
                 length (filter (\<lambda>i. spec_unmasked ig (label ! i) \<and> pred ! i = of_int (label ! i))
                           [0..<n]))
               (zip labels pred_arrays))"

definition spec_attempted :: "int option \<Rightarrow> int list list \<Rightarrow> nat \<Rightarrow> nat" where
  "spec_attempted ig labels n =
     sum_list (map (\<lambda>label. length (filter (\<lambda>i. spec_unmasked ig (label ! i)) [0..<n])) labels)"

definition spec_step_accuracy ::
  "int option \<Rightarrow> int list list \<Rightarrow> rat list list \<Rightarrow> nat \<Rightarrow> rat option" where
  "spec_step_accuracy ig labels pred_arrays n =
     (if spec_attempted ig labels n = 0 then None
      else Some (of_nat (spec_correct ig labels pred_arrays n)
                 / of_nat (spec_attempted ig labels n)))"

subsection \<open>Rolling windows as the specification words them\<close>

text \<open>
  The last \<open>n\<close> elements of a list, in order; a window of capacity \<open>cap\<close> that has
  received the values \<open>xs\<close> holds their last \<open>cap\<close>; and the windows of an
  \<^verbatim>\<open>Iteration\<close> object that has received the durations \<open>ds\<close>, the cycle counts
  \<open>cs\<close> and the per-objective statistics \<open>ss\<close> (the windows of the other task are
  empty).
\<close>

definition last_n :: "nat \<Rightarrow> 'a list \<Rightarrow> 'a list" where
  "last_n n xs = drop (length xs - n) xs"

definition window_is :: "nat \<Rightarrow> 'a deque \<Rightarrow> 'a list \<Rightarrow> bool" where
  "window_is cap w xs = (maxlen w = cap \<and> items w = last_n cap xs)"

definition windows_hold ::
  "nat \<Rightarrow> Iteration \<Rightarrow> rat list \<Rightarrow> int list \<Rightarrow> (rat option \<times> rat option) list list \<Rightarrow> bool" where
  "windows_hold cap it ds cs ss =
     (window_is cap (durations it) ds \<and> window_is cap (cycles it) cs \<and>
      (if Iteration.task it = ''PRETRAINING''
       then window_is cap (mlm_losses it) (map (\<lambda>s. fst (s ! 0)) ss) \<and>
            window_is cap (nsp_losses it) (map (\<lambda>s. fst (s ! 1)) ss) \<and>
            window_is cap (mlm_accuracies it) (map (\<lambda>s. snd (s ! 0)) ss) \<and>
            window_is cap (nsp_accuracies it) (map (\<lambda>s. snd (s ! 1)) ss) \<and>
            items (squad_losses it) = [] \<and> items (squad_accuracies it) = []
       else window_is cap (squad_losses it) (map (\<lambda>s. fst (s ! 0)) ss) \<and>
            window_is cap (squad_accuracies it) (map (\<lambda>s. snd (s ! 0)) ss) \<and>
            items (mlm_losses it) = [] \<and> items (nsp_losses it) = [] \<and>
            items (mlm_accuracies it) = [] \<and> items (nsp_accuracies it) = []))"

subsection \<open>Checkpoint triggers as the specification words them\<close>

text \<open>
  The checkpoints of one epoch \<open>e\<close> that starts at step count \<open>c\<close> and processes
  \<open>n\<close> batches: one after each batch whose step count is a multiple of
  \<^verbatim>\<open>steps_per_save\<close> (when that is positive), in order; then, over the epochs, the
  epoch-boundary checkpoint where \<^verbatim>\<open>epochs_per_save\<close> is positive and divides the
  epoch index; and for the whole loop the checkpoint at the start, those of the epochs,
  and the checkpoint at the end.
\<close>

definition spec_step_saves :: "args \<Rightarrow> int \<Rightarrow> int \<Rightarrow> int \<Rightarrow> save_event list" where
  "spec_step_saves a e c n =
     map (\<lambda>x. \<lparr>save_epoch = Some e, step_in_filename = True, save_step = x\<rparr>)
       (filter (\<lambda>x. steps_per_save a > 0 \<and> x mod steps_per_save a = 0) [c + 1 .. c + n])"



section \<open>Properties of the masked statistics\<close>

lemma np_select_nth:
  "length m = length a \<Longrightarrow>
     np_select m a = map ((!) a) (filter ((!) m) [0..<length a])"
proof (induction a arbitrary: m rule: rev_induct)
  case Nil
  then show ?case by (simp add: np_select_def)
next
  case (snoc x xs)
  then obtain m' b where m: "m = m' @ [b]" and len: "length m' = length xs"
    by (cases m rule: rev_cases) auto
  have IH: "np_select m' xs = map ((!) xs) (filter ((!) m') [0..<length xs])"
    using snoc.IH len by simp
  have f: "filter ((!) (m' @ [b])) [0..<length xs] = filter ((!) m') [0..<length xs]"
    using len by (intro filter_cong) (auto simp: nth_append)
  have g: "map ((!) (xs @ [x])) (filter ((!) m') [0..<length xs])
             = map ((!) xs) (filter ((!) m') [0..<length xs])"
    by (intro map_cong) (auto simp: nth_append)
  have z: "np_select (m' @ [b]) (xs @ [x]) = np_select m' xs @ (if b then [x] else [])"
    using len by (simp add: np_select_def)
  have last: "(m' @ [b]) ! length xs = b" "(xs @ [x]) ! length xs = x"
    using len by (simp_all add: nth_append)
  show ?case
    unfolding m z IH by (simp add: f g last)
qed

lemma np_sum_axis0_nth:
  "masks \<noteq> [] \<Longrightarrow> \<forall>m\<in>set masks. length m = n \<Longrightarrow>
     np_sum_axis0 masks = Inr (map (\<lambda>i. length (filter (\<lambda>m. m ! i) masks)) [0..<n])"
proof (induction masks rule: np_sum_axis0.induct)
  case 1
  then show ?case by simp
next
  case (2 m)
  then have len: "length m = n" by simp
  have "map of_bool m = map (\<lambda>i. length (filter (\<lambda>m. m ! i) [m])) [0..<n]"
    using len by (intro nth_equalityI) simp_all
  then show ?case by simp
next
  case (3 m v va)
  let ?s = "map (\<lambda>i. length (filter (\<lambda>m. m ! i) (v # va))) [0..<n]"
  have IH: "np_sum_axis0 (v # va) = Inr ?s"
    using 3 by simp
  have len: "length m = n" using 3 by simp
  have "map2 (+) (map of_bool m) ?s
          = map (\<lambda>i. length (filter (\<lambda>m. m ! i) (m # v # va))) [0..<n]"
    using len by (intro nth_equalityI) simp_all
  then show ?case using IH len by simp
qed

lemma bound_shapeD: "bound_shape anchors n h \<Longrightarrow> \<exists>a. anchors h = Some a \<and> length a = n"
  by (auto simp: bound_shape_def split: option.splits)

lemma bound_shape_upd:
  "bound_shape anchors n h \<Longrightarrow> length v = n \<Longrightarrow> bound_shape (anchors(k \<mapsto> v)) n h"
  by (auto simp: bound_shape_def split: option.splits)

lemma zero_masked_shape:
  "\<forall>h\<in>set losses. bound_shape anchors n h \<Longrightarrow> \<forall>m\<in>set masks. length m = n \<Longrightarrow>
     \<exists>anchors'. zero_masked anchors losses masks = Inr anchors' \<and>
        (\<forall>h. bound_shape anchors n h \<longrightarrow> bound_shape anchors' n h)"
proof (induction anchors losses masks rule: zero_masked.induct)
  case (1 anchors loss losses msk masks)
  from 1(2) obtain a where a: "anchors loss = Some a" "length a = n"
    using bound_shapeD by fastforce
  have m: "length msk = n" using 1(3) by simp
  let ?v = "map2 (\<lambda>x m. if m then x else 0) a msk"
  let ?A = "anchors(loss \<mapsto> ?v)"
  have v: "length ?v = n" using a m by simp
  have up: "bound_shape ?A n h" if "bound_shape anchors n h" for h
    using that v by (rule bound_shape_upd)
  have ne: "\<not> length a \<noteq> length msk" using a m by simp
  have bs: "\<forall>h\<in>set losses. bound_shape ?A n h" using 1(2) up by simp
  have ms: "\<forall>m\<in>set masks. length m = n" using 1(3) by simp
  from 1(1)[OF a(1) ne bs ms]
  obtain B where B: "zero_masked ?A losses masks = Inr B"
      "\<forall>h. bound_shape ?A n h \<longrightarrow> bound_shape B n h"
    by blast
  have "zero_masked anchors (loss # losses) (msk # masks) = Inr B"
    using a m B(1) by simp
  moreover have "\<forall>h. bound_shape anchors n h \<longrightarrow> bound_shape B n h"
    using B(2) up by blast
  ultimately show ?case by blast
qed simp_all

lemma zero_masked_exact:
  "length losses = length masks \<Longrightarrow> distinct losses \<Longrightarrow>
   \<forall>h\<in>set losses. bound_shape anchors n h \<Longrightarrow> \<forall>m\<in>set masks. length m = n \<Longrightarrow>
     \<exists>anchors'. zero_masked anchors losses masks = Inr anchors' \<and>
        (\<forall>h. h \<notin> set losses \<longrightarrow> anchors' h = anchors h) \<and>
        map (\<lambda>h. the (anchors' h)) losses
          = map (\<lambda>(h, m). map2 (\<lambda>x b. if b then x else 0) (the (anchors h)) m) (zip losses masks)"
proof (induction losses masks arbitrary: anchors rule: list_induct2)
  case Nil
  then show ?case by simp
next
  case (Cons loss losses msk masks)
  from Cons.prems obtain a where a: "anchors loss = Some a" "length a = n"
    using bound_shapeD by fastforce
  have m: "length msk = n" using Cons.prems by simp
  let ?v = "map2 (\<lambda>x m. if m then x else 0) a msk"
  let ?A = "anchors(loss \<mapsto> ?v)"
  have v: "length ?v = n" using a m by simp
  have notin: "loss \<notin> set losses" and dist: "distinct losses" using Cons.prems by auto
  have bs: "\<forall>h\<in>set losses. bound_shape ?A n h"
    using Cons.prems v by (auto intro: bound_shape_upd)
  have ms: "\<forall>m\<in>set masks. length m = n" using Cons.prems by simp
  from Cons.IH[OF dist bs ms]
  obtain B where B: "zero_masked ?A losses masks = Inr B"
      "\<forall>h. h \<notin> set losses \<longrightarrow> B h = ?A h"
      "map (\<lambda>h. the (B h)) losses
          = map (\<lambda>(h, m). map2 (\<lambda>x b. if b then x else 0) (the (?A h)) m) (zip losses masks)"
    by blast
  have same: "map (\<lambda>(h, m). map2 (\<lambda>x b. if b then x else 0) (the (?A h)) m) (zip losses masks)
      = map (\<lambda>(h, m). map2 (\<lambda>x b. if b then x else 0) (the (anchors h)) m) (zip losses masks)"
    using notin by (intro map_cong) (auto dest: set_zip_leftD)
  have Bl: "B loss = Some ?v" using B(2) notin by simp
  have "zero_masked anchors (loss # losses) (msk # masks) = Inr B"
    using a m B(1) by simp
  moreover have "\<forall>h. h \<notin> set (loss # losses) \<longrightarrow> B h = anchors h"
    using B(2) by auto
  moreover have "map (\<lambda>h. the (B h)) (loss # losses)
          = map (\<lambda>(h, m). map2 (\<lambda>x b. if b then x else 0) (the (anchors h)) m)
              (zip (loss # losses) (msk # masks))"
    using B(3) same Bl a by simp
  ultimately show ?case by blast
qed

lemma reduce_np_add_nth:
  "length acc = n \<Longrightarrow> \<forall>h\<in>set ls. bound_shape anchors n h \<Longrightarrow>
     reduce_np_add anchors acc ls
       = Inr (map (\<lambda>i. acc ! i + sum_list (map (\<lambda>h. the (anchors h) ! i) ls)) [0..<n])"
proof (induction ls arbitrary: acc)
  case Nil
  then have "map ((!) acc) [0..<n] = acc" using map_nth[of acc] by auto
  then show ?case by simp
next
  case (Cons h ls)
  from Cons.prems obtain a where a: "anchors h = Some a" "length a = n"
    using bound_shapeD by fastforce
  have len: "length (map2 (+) acc a) = n" using a Cons.prems by simp
  have "reduce_np_add anchors (map2 (+) acc a) ls
       = Inr (map (\<lambda>i. map2 (+) acc a ! i + sum_list (map (\<lambda>h. the (anchors h) ! i) ls)) [0..<n])"
    using Cons.prems by (intro Cons.IH[OF len]) simp
  moreover have "map (\<lambda>i. map2 (+) acc a ! i + sum_list (map (\<lambda>h. the (anchors h) ! i) ls)) [0..<n]
       = map (\<lambda>i. acc ! i + sum_list (map (\<lambda>h. the (anchors h) ! i) (h # ls))) [0..<n]"
    using a Cons.prems by (intro map_cong) (auto simp: add.assoc)
  ultimately show ?case using a Cons.prems by simp
qed

lemma combined_loss_of_nth:
  "losses \<noteq> [] \<Longrightarrow> \<forall>h\<in>set losses. bound_shape anchors n h \<Longrightarrow>
     combined_loss_of anchors losses
       = Inr (map (\<lambda>i. sum_list (map (\<lambda>h. the (anchors h) ! i) losses)) [0..<n])"
proof (cases losses)
  case Nil
  assume "losses \<noteq> []" with Nil show ?thesis by simp
next
  case (Cons h ls)
  assume b: "\<forall>h\<in>set losses. bound_shape anchors n h"
  then obtain a where a: "anchors h = Some a" "length a = n"
    using bound_shapeD Cons by fastforce
  have "reduce_np_add anchors a ls
       = Inr (map (\<lambda>i. a ! i + sum_list (map (\<lambda>h. the (anchors h) ! i) ls)) [0..<n])"
    using b Cons a by (intro reduce_np_add_nth) auto
  then show ?thesis using Cons a by (simp add: combined_loss_of_def)
qed

lemma padding_mask_length [simp]: "length (padding_mask ig label) = length label"
  by (simp add: padding_mask_def split: option.splits)

lemma padding_mask_nth:
  "i < length label \<Longrightarrow> padding_mask ig label ! i = spec_unmasked ig (label ! i)"
  by (simp add: padding_mask_def spec_unmasked_def split: option.splits)

lemma num_losses_spec:
  assumes "labels \<noteq> []" "\<forall>l\<in>set labels. length l = n"
  shows "np_sum_axis0 (map (padding_mask ig) labels)
           = Inr (map (spec_num_losses ig labels) [0..<n])"
proof -
  let ?masks = "map (padding_mask ig) labels"
  have "np_sum_axis0 ?masks = Inr (map (\<lambda>i. length (filter (\<lambda>m. m ! i) ?masks)) [0..<n])"
    using assms by (intro np_sum_axis0_nth) auto
  moreover have "map (\<lambda>i. length (filter (\<lambda>m. m ! i) ?masks)) [0..<n]
                   = map (spec_num_losses ig labels) [0..<n]"
  proof (rule map_cong[OF refl])
    fix i assume "i \<in> set [0..<n]"
    then have i: "i < n" by simp
    have "filter ((\<lambda>m. m ! i) \<circ> padding_mask ig) labels
            = filter (\<lambda>label. spec_unmasked ig (label ! i)) labels"
      using assms(2) i by (intro filter_cong) (auto simp: padding_mask_nth)
    then show "length (filter (\<lambda>m. m ! i) ?masks) = spec_num_losses ig labels i"
      by (simp add: filter_map spec_num_losses_def)
  qed
  ultimately show ?thesis by simp
qed

lemma select_master_num:
  "np_select (map (\<lambda>c. c \<noteq> 0) (map f [0..<n])) (map f [0..<n])
     = map f (filter (\<lambda>i. f i \<noteq> (0::nat)) [0..<n])"
proof -
  have "filter ((!) (map (\<lambda>c. c \<noteq> 0) (map f [0..<n]))) [0..<n]
          = filter (\<lambda>i. f i \<noteq> 0) [0..<n]"
    by (intro filter_cong) auto
  moreover have "map ((!) (map f [0..<n])) (filter (\<lambda>i. f i \<noteq> 0) [0..<n])
          = map f (filter (\<lambda>i. f i \<noteq> 0) [0..<n])"
    by (intro map_cong) auto
  ultimately show ?thesis by (simp add: np_select_nth)
qed

lemma select_master_other:
  "np_select (map (\<lambda>c. c \<noteq> 0) (map f [0..<n])) (map g [0..<n])
     = map g (filter (\<lambda>i. f i \<noteq> (0::nat)) [0..<n])"
proof -
  have "filter ((!) (map (\<lambda>c. c \<noteq> 0) (map f [0..<n]))) [0..<n]
          = filter (\<lambda>i. f i \<noteq> 0) [0..<n]"
    by (intro filter_cong) auto
  moreover have "map ((!) (map g [0..<n])) (filter (\<lambda>i. f i \<noteq> 0) [0..<n])
          = map g (filter (\<lambda>i. f i \<noteq> 0) [0..<n])"
    by (intro map_cong) auto
  ultimately show ?thesis by (simp add: np_select_nth)
qed

lemma map2_same: "map2 f (map g xs) (map h xs) = map (\<lambda>x. f (g x) (h x)) xs"
  by (induction xs) auto

lemma length_filter_sum: "length (filter P xs) = sum_list (map (\<lambda>x. if P x then 1 else 0) xs)"
  by (induction xs) auto

lemma sum_list_drop_zero: "sum_list (map f (filter (\<lambda>i. f i \<noteq> (0::nat)) xs)) = sum_list (map f xs)"
  by (induction xs) auto

lemma count_swap:
  "sum_list (map (\<lambda>i. length (filter (\<lambda>l. P l i) ls)) xs)
     = sum_list (map (\<lambda>l. length (filter (\<lambda>i. P l i) xs)) ls)"
proof (induction ls)
  case Nil
  then show ?case by simp
next
  case (Cons l ls)
  have "sum_list (map (\<lambda>i. length (filter (\<lambda>l. P l i) (l # ls))) xs)
      = sum_list (map (\<lambda>i. (if P l i then 1 else 0) + length (filter (\<lambda>l. P l i) ls)) xs)"
    by (intro arg_cong[where f=sum_list] map_cong) auto
  also have "\<dots> = sum_list (map (\<lambda>i. if P l i then 1 else 0) xs)
                   + sum_list (map (\<lambda>i. length (filter (\<lambda>l. P l i) ls)) xs)"
    by (simp add: sum_list_addf)
  also have "\<dots> = length (filter (\<lambda>i. P l i) xs)
                   + sum_list (map (\<lambda>l. length (filter (\<lambda>i. P l i) xs)) ls)"
    using Cons.IH by (simp add: length_filter_sum[symmetric])
  finally show ?case by simp
qed

lemma attempted_spec:
  "sum_list (map (spec_num_losses ig labels) (spec_retained ig labels n))
     = spec_attempted ig labels n"
  unfolding spec_retained_def sum_list_drop_zero
  unfolding spec_num_losses_def spec_attempted_def
  by (rule count_swap)

lemma correct_count_one:
  assumes "length pred = n" "length label = n"
  shows "length (filter id (np_select (padding_mask ig label)
                              (map2 (\<lambda>x l. x = of_int l) pred label)))
       = length (filter (\<lambda>i. spec_unmasked ig (label ! i) \<and> pred ! i = of_int (label ! i))
                   [0..<n])"
proof -
  let ?eq = "map2 (\<lambda>x l. x = of_int l) pred label"
  have len: "length ?eq = n" using assms by simp
  have sel: "np_select (padding_mask ig label) ?eq
               = map ((!) ?eq) (filter ((!) (padding_mask ig label)) [0..<n])"
    using np_select_nth[of "padding_mask ig label" ?eq] assms by simp
  have "filter id (map ((!) ?eq) (filter ((!) (padding_mask ig label)) [0..<n]))
          = map ((!) ?eq) (filter (\<lambda>i. padding_mask ig label ! i \<and> ?eq ! i) [0..<n])"
    by (simp add: filter_map comp_def conj_commute)
  moreover have "filter (\<lambda>i. padding_mask ig label ! i \<and> ?eq ! i) [0..<n]
          = filter (\<lambda>i. spec_unmasked ig (label ! i) \<and> pred ! i = of_int (label ! i)) [0..<n]"
    using assms by (intro filter_cong) (auto simp: padding_mask_nth)
  ultimately show ?thesis unfolding sel by simp
qed

lemma total_correct_loop_spec:
  "length preds = length labels \<Longrightarrow> \<forall>p\<in>set preds. bound_shape A n p \<Longrightarrow>
   \<forall>l\<in>set labels. length l = n \<Longrightarrow>
     total_correct_loop A preds labels (map (padding_mask ig) labels) acc
       = Inr (acc + spec_correct ig labels (map (\<lambda>p. the (A p)) preds) n)"
proof (induction preds labels arbitrary: acc rule: list_induct2)
  case Nil
  then show ?case by (simp add: spec_correct_def)
next
  case (Cons p preds label labels)
  from Cons.prems obtain a where a: "A p = Some a" "length a = n"
    using bound_shapeD by fastforce
  have l: "length label = n" using Cons.prems by simp
  have one: "length (filter id (np_select (padding_mask ig label)
                              (map2 (\<lambda>x l. x = of_int l) a label)))
       = length (filter (\<lambda>i. spec_unmasked ig (label ! i) \<and> a ! i = of_int (label ! i))
                   [0..<n])"
    using a l by (intro correct_count_one)
  have IH: "total_correct_loop A preds labels (map (padding_mask ig) labels) acc'
       = Inr (acc' + spec_correct ig labels (map (\<lambda>p. the (A p)) preds) n)" for acc'
    using Cons.prems by (intro Cons.IH) auto
  show ?case
    using a l by (simp add: IH one spec_correct_def Let_def)
qed

lemma total_correct_loop_returns:
  "\<forall>p\<in>set preds. bound_shape A n p \<Longrightarrow> \<forall>l\<in>set labels. length l = n \<Longrightarrow>
     \<exists>c. total_correct_loop A preds labels masks acc = Inr c"
proof (induction A preds labels masks acc rule: total_correct_loop.induct)
  case (1 anchors labels masks total_correct)
  then show ?case by simp
next
  case (2 anchors p predictions labels masks total_correct)
  from 2(2) obtain a where a: "anchors p = Some a" "length a = n"
    using bound_shapeD by fastforce
  show ?case
  proof (cases labels)
    case Nil
    then show ?thesis using a by simp
  next
    case lab: (Cons label labels')
    show ?thesis
    proof (cases masks)
      case Nil
      then show ?thesis using a lab by simp
    next
      case (Cons msk masks')
      have ll: "length label = n" using 2(3) lab by simp
      have ne: "\<not> length a \<noteq> length label" using a ll by simp
      have "\<exists>c. total_correct_loop anchors predictions labels' masks'
                 (total_correct + length (filter id (np_select msk
                      (map2 (\<lambda>x l. x = of_int l) a label)))) = Inr c"
        using 2(2,3) lab
        by (intro 2(1)[OF a(1) refl lab Cons ne refl]) auto
      then show ?thesis using a lab Cons ll by (simp add: Let_def)
    qed
  qed
qed

lemma summed_loss_spec:
  assumes len: "length losses = length labels"
      and lab: "\<forall>l\<in>set labels. length l = n"
      and bs: "\<forall>h\<in>set losses. bound_shape anchors n h"
      and i: "i < n"
  shows "sum_list (map (\<lambda>a. a ! i)
            (map (\<lambda>(h, m). map2 (\<lambda>x b. if b then x else 0) (the (anchors h)) m)
               (zip losses (map (padding_mask ig) labels))))
       = spec_summed_loss ig labels (map (\<lambda>h. the (anchors h)) losses) i"
proof -
  have "map (\<lambda>a. a ! i)
            (map (\<lambda>(h, m). map2 (\<lambda>x b. if b then x else 0) (the (anchors h)) m)
               (zip losses (map (padding_mask ig) labels)))
      = map (\<lambda>(label, loss). if spec_unmasked ig (label ! i) then loss ! i else 0)
                 (zip labels (map (\<lambda>h. the (anchors h)) losses))"
  proof (rule nth_equalityI)
    show "length (map (\<lambda>a. a ! i)
            (map (\<lambda>(h, m). map2 (\<lambda>x b. if b then x else 0) (the (anchors h)) m)
               (zip losses (map (padding_mask ig) labels))))
        = length (map (\<lambda>(label, loss). if spec_unmasked ig (label ! i) then loss ! i else 0)
                 (zip labels (map (\<lambda>h. the (anchors h)) losses)))"
      using len by simp
  next
    fix k assume "k < length (map (\<lambda>a. a ! i)
            (map (\<lambda>(h, m). map2 (\<lambda>x b. if b then x else 0) (the (anchors h)) m)
               (zip losses (map (padding_mask ig) labels))))"
    then have k: "k < length labels" "k < length losses" using len by simp_all
    then have "labels ! k \<in> set labels" "losses ! k \<in> set losses" by simp_all
    then have ll: "length (labels ! k) = n" and "bound_shape anchors n (losses ! k)"
      using lab bs by blast+
    then obtain a where a: "anchors (losses ! k) = Some a" "length a = n"
      using bound_shapeD by blast
    show "map (\<lambda>a. a ! i)
            (map (\<lambda>(h, m). map2 (\<lambda>x b. if b then x else 0) (the (anchors h)) m)
               (zip losses (map (padding_mask ig) labels))) ! k
        = map (\<lambda>(label, loss). if spec_unmasked ig (label ! i) then loss ! i else 0)
                 (zip labels (map (\<lambda>h. the (anchors h)) losses)) ! k"
      using k a ll i by (simp add: padding_mask_nth)
  qed
  then show ?thesis by (simp add: spec_summed_loss_def)
qed

lemma bert_output_stats_unfold:
  assumes lab: "labels \<noteq> []" "\<forall>l\<in>set labels. length l = n"
      and los: "losses \<noteq> []"
      and bs: "\<forall>h\<in>set losses \<union> set predictions. bound_shape anchors n h"
  shows "\<exists>anchors1 c.
           zero_masked anchors losses (map (padding_mask ig) labels) = Inr anchors1 \<and>
           total_correct_loop anchors1 predictions labels (map (padding_mask ig) labels) 0 = Inr c \<and>
           bert_output_stats labels anchors losses predictions ig =
             Inr ((np_mean (map (\<lambda>i. sum_list (map (\<lambda>h. the (anchors1 h) ! i) losses)
                                          / of_nat (spec_num_losses ig labels i))
                              (spec_retained ig labels n)),
                   if spec_attempted ig labels n = 0 then None
                   else Some (of_nat c / of_nat (spec_attempted ig labels n))),
                  anchors1)"
proof -
  let ?masks = "map (padding_mask ig) labels"
  let ?nl = "map (spec_num_losses ig labels) [0..<n]"
  have nl: "np_sum_axis0 ?masks = Inr ?nl"
    using lab by (rule num_losses_spec)
  have ms: "\<forall>m\<in>set ?masks. length m = n" using lab(2) by simp
  have bl: "\<forall>h\<in>set losses. bound_shape anchors n h" using bs by simp
  from zero_masked_shape[OF bl ms]
  obtain A where A: "zero_masked anchors losses ?masks = Inr A"
      "\<forall>h. bound_shape anchors n h \<longrightarrow> bound_shape A n h"
    by blast
  have bA: "\<forall>h\<in>set losses. bound_shape A n h" "\<forall>p\<in>set predictions. bound_shape A n p"
    using A(2) bs by simp_all
  let ?comb = "map (\<lambda>i. sum_list (map (\<lambda>h. the (A h) ! i) losses)) [0..<n]"
  have comb: "combined_loss_of A losses = Inr ?comb"
    using los bA(1) by (rule combined_loss_of_nth)
  from total_correct_loop_returns[OF bA(2) lab(2)]
  obtain c where c: "total_correct_loop A predictions labels ?masks 0 = Inr c"
    by blast
  have sel1: "np_select (map (\<lambda>c. c \<noteq> 0) ?nl) ?nl
                = map (spec_num_losses ig labels) (spec_retained ig labels n)"
    unfolding spec_retained_def by (rule select_master_num)
  have sel2: "np_select (map (\<lambda>c. c \<noteq> 0) ?nl) ?comb
                = map (\<lambda>i. sum_list (map (\<lambda>h. the (A h) ! i) losses)) (spec_retained ig labels n)"
    unfolding spec_retained_def by (rule select_master_other)
  have "bert_output_stats labels anchors losses predictions ig =
             Inr ((np_mean (map (\<lambda>i. sum_list (map (\<lambda>h. the (A h) ! i) losses)
                                          / of_nat (spec_num_losses ig labels i))
                              (spec_retained ig labels n)),
                   if spec_attempted ig labels n = 0 then None
                   else Some (of_nat c / of_nat (spec_attempted ig labels n))),
                  A)"
    apply (simp only: bert_output_stats_def Let_def nl sum.case A(1) comb c
             length_map length_upt minus_nat.diff_0 simp_thms if_False sel1 sel2)
    apply (simp add: map2_same attempted_spec)
    done
  then show ?thesis using A(1) c by blast
qed

lemma retained_empty_iff:
  assumes "\<forall>l\<in>set labels. length l = n"
  shows "spec_retained ig labels n = []
           \<longleftrightarrow> \<not> (\<exists>label\<in>set labels. \<exists>x\<in>set label. spec_unmasked ig x)"
proof -
  have "spec_retained ig labels n = []
          \<longleftrightarrow> (\<forall>i<n. \<forall>label\<in>set labels. \<not> spec_unmasked ig (label ! i))"
    by (auto simp: spec_retained_def spec_num_losses_def filter_empty_conv)
  also have "\<dots> \<longleftrightarrow> \<not> (\<exists>label\<in>set labels. \<exists>x\<in>set label. spec_unmasked ig x)"
  proof
    assume a: "\<forall>i<n. \<forall>label\<in>set labels. \<not> spec_unmasked ig (label ! i)"
    show "\<not> (\<exists>label\<in>set labels. \<exists>x\<in>set label. spec_unmasked ig x)"
    proof
      assume "\<exists>label\<in>set labels. \<exists>x\<in>set label. spec_unmasked ig x"
      then obtain label x where l: "label \<in> set labels" "x \<in> set label" "spec_unmasked ig x"
        by blast
      then obtain i where "i < length label" "label ! i = x"
        by (auto simp: in_set_conv_nth)
      then show False using a l assms by auto
    qed
  next
    assume a: "\<not> (\<exists>label\<in>set labels. \<exists>x\<in>set label. spec_unmasked ig x)"
    show "\<forall>i<n. \<forall>label\<in>set labels. \<not> spec_unmasked ig (label ! i)"
    proof (intro allI impI ballI)
      fix i label assume "i < n" "label \<in> set labels"
      then have "label ! i \<in> set label" using assms by simp
      then show "\<not> spec_unmasked ig (label ! i)" using a \<open>label \<in> set labels\<close> by blast
    qed
  qed
  finally show ?thesis .
qed

lemma attempted_zero_iff:
  "spec_attempted ig labels n = 0 \<longleftrightarrow> spec_retained ig labels n = []"
proof -
  have "spec_attempted ig labels n = 0
          \<longleftrightarrow> (\<forall>i\<in>set (spec_retained ig labels n). spec_num_losses ig labels i = 0)"
    unfolding attempted_spec[symmetric] by (simp add: sum_list_eq_0_iff)
  also have "\<dots> \<longleftrightarrow> spec_retained ig labels n = []"
  proof -
    have h: "\<forall>i\<in>set (spec_retained ig labels n). spec_num_losses ig labels i \<noteq> 0"
      by (simp add: spec_retained_def)
    show ?thesis using h by (cases "spec_retained ig labels n") auto
  qed
  finally show ?thesis .
qed

text \<open>
  Claim C2. For labels of one shape, one loss and one prediction buffer per label, all of
  that shape, the loss handles pairwise distinct and distinct from the prediction
  handles: the divisor array \<open>num_losses\<close>, after the master mask, holds the counts of
  the retained positions and every entry is strictly positive; the step loss is the mean
  over the retained positions of the summed masked loss divided by the count, and the
  accuracy is the number of unmasked positions with prediction equal to label over the
  number of unmasked positions. Positions masked for every objective appear in neither.
\<close>

theorem bert_output_stats_masked_mean:
  assumes lab: "labels \<noteq> []" "\<forall>l\<in>set labels. length l = n"
      and len: "length losses = length labels" "length predictions = length labels"
      and dist: "distinct losses" "set losses \<inter> set predictions = {}"
      and bs: "\<forall>h\<in>set losses \<union> set predictions. bound_shape anchors n h"
  shows "\<exists>num_losses anchors1.
           np_sum_axis0 (map (padding_mask ig) labels) = Inr num_losses \<and>
           np_select (map (\<lambda>c. c \<noteq> 0) num_losses) num_losses
             = map (spec_num_losses ig labels) (spec_retained ig labels n) \<and>
           (\<forall>c\<in>set (np_select (map (\<lambda>c. c \<noteq> 0) num_losses) num_losses). 0 < c) \<and>
           bert_output_stats labels anchors losses predictions ig =
             Inr ((spec_step_loss ig labels (map (\<lambda>h. the (anchors h)) losses) n,
                   spec_step_accuracy ig labels (map (\<lambda>h. the (anchors h)) predictions) n),
                  anchors1)"
proof -
  let ?masks = "map (padding_mask ig) labels"
  let ?nl = "map (spec_num_losses ig labels) [0..<n]"
  have los: "losses \<noteq> []" using lab(1) len(1) by auto
  have nl: "np_sum_axis0 ?masks = Inr ?nl"
    using lab by (rule num_losses_spec)
  have sel1: "np_select (map (\<lambda>c. c \<noteq> 0) ?nl) ?nl
                = map (spec_num_losses ig labels) (spec_retained ig labels n)"
    unfolding spec_retained_def by (rule select_master_num)
  have pos: "\<forall>c\<in>set (np_select (map (\<lambda>c. c \<noteq> 0) ?nl) ?nl). 0 < c"
    unfolding sel1 by (auto simp: spec_retained_def)
  from bert_output_stats_unfold[OF lab los bs, of ig]
  obtain A c where A: "zero_masked anchors losses ?masks = Inr A"
    and c: "total_correct_loop A predictions labels ?masks 0 = Inr c"
    and res: "bert_output_stats labels anchors losses predictions ig =
             Inr ((np_mean (map (\<lambda>i. sum_list (map (\<lambda>h. the (A h) ! i) losses)
                                          / of_nat (spec_num_losses ig labels i))
                              (spec_retained ig labels n)),
                   if spec_attempted ig labels n = 0 then None
                   else Some (of_nat c / of_nat (spec_attempted ig labels n))),
                  A)"
    by blast
  have ms: "\<forall>m\<in>set ?masks. length m = n" using lab(2) by simp
  have bl: "\<forall>h\<in>set losses. bound_shape anchors n h" using bs by simp
  have lm: "length losses = length ?masks" using len(1) by simp
  from zero_masked_exact[OF lm dist(1) bl ms] A
  have keep: "\<forall>h. h \<notin> set losses \<longrightarrow> A h = anchors h"
    and zs: "map (\<lambda>h. the (A h)) losses
          = map (\<lambda>(h, m). map2 (\<lambda>x b. if b then x else 0) (the (anchors h)) m)
              (zip losses ?masks)"
    by auto
  have preds: "map (\<lambda>p. the (A p)) predictions = map (\<lambda>p. the (anchors p)) predictions"
    using keep dist(2) by (intro map_cong) auto
  have bA: "\<forall>p\<in>set predictions. bound_shape A n p"
  proof
    fix p assume p: "p \<in> set predictions"
    then have "A p = anchors p" using keep dist(2) by auto
    then show "bound_shape A n p" using bs p by (simp add: bound_shape_def)
  qed
  have "total_correct_loop A predictions labels ?masks 0
          = Inr (0 + spec_correct ig labels (map (\<lambda>p. the (A p)) predictions) n)"
    using len(2) bA lab(2) by (rule total_correct_loop_spec)
  then have c_eq: "c = spec_correct ig labels (map (\<lambda>p. the (anchors p)) predictions) n"
    using c preds by simp
  have summed: "sum_list (map (\<lambda>h. the (A h) ! i) losses)
                  = spec_summed_loss ig labels (map (\<lambda>h. the (anchors h)) losses) i"
    if "i < n" for i
  proof -
    have "sum_list (map (\<lambda>h. the (A h) ! i) losses)
            = sum_list (map (\<lambda>a. a ! i) (map (\<lambda>h. the (A h)) losses))"
      by (simp add: comp_def)
    also have "\<dots> = spec_summed_loss ig labels (map (\<lambda>h. the (anchors h)) losses) i"
      unfolding zs using len(1) lab(2) bl that by (rule summed_loss_spec)
    finally show ?thesis .
  qed
  have loss_eq: "np_mean (map (\<lambda>i. sum_list (map (\<lambda>h. the (A h) ! i) losses)
                                          / of_nat (spec_num_losses ig labels i))
                              (spec_retained ig labels n))
       = spec_step_loss ig labels (map (\<lambda>h. the (anchors h)) losses) n"
  proof -
    have m: "map (\<lambda>i. sum_list (map (\<lambda>h. the (A h) ! i) losses)
                                          / of_nat (spec_num_losses ig labels i))
                              (spec_retained ig labels n)
        = map (\<lambda>i. spec_summed_loss ig labels (map (\<lambda>h. the (anchors h)) losses) i
                                          / of_nat (spec_num_losses ig labels i))
                              (spec_retained ig labels n)"
      by (intro map_cong) (auto simp: spec_retained_def summed)
    show ?thesis unfolding np_mean_def spec_step_loss_def Let_def m by simp
  qed
  have "bert_output_stats labels anchors losses predictions ig =
             Inr ((spec_step_loss ig labels (map (\<lambda>h. the (anchors h)) losses) n,
                   spec_step_accuracy ig labels (map (\<lambda>h. the (anchors h)) predictions) n),
                  A)"
    unfolding res loss_eq c_eq spec_step_accuracy_def by simp
  with nl sel1 pos show ?thesis by blast
qed

text \<open>
  Two objectives over four positions with ignore value 0: position 2 is masked for both
  and dropped, position 3 is unmasked for both and its loss divided by 2.
\<close>

theorem bert_output_stats_masked_mean_witness:
  "\<exists>anchors1.
     bert_output_stats [[0, 5, 0, 2], [3, 0, 0, 4]]
       [''l1'' \<mapsto> [1, 2, 3, 4], ''l2'' \<mapsto> [4, 5, 6, 8],
        ''p1'' \<mapsto> [0, 5, 9, 2], ''p2'' \<mapsto> [1, 0, 0, 7]]
       [''l1'', ''l2''] [''p1'', ''p2''] (Some 0)
     = Inr ((Some 4, Some (1 / 2)), anchors1)"
proof -
  let ?labels = "[[0, 5, 0, 2], [3, 0, 0, 4]] :: int list list"
  let ?A = "[''l1'' \<mapsto> [1, 2, 3, 4], ''l2'' \<mapsto> [4, 5, 6, 8],
             ''p1'' \<mapsto> [0, 5, 9, 2], ''p2'' \<mapsto> [1, 0, 0, 7]] :: anchors"
  have h1: "?labels \<noteq> []" "\<forall>l\<in>set ?labels. length l = 4" by simp_all
  have h2: "length [''l1'', ''l2''] = length ?labels"
           "length [''p1'', ''p2''] = length ?labels" by simp_all
  have h3: "distinct [''l1'', ''l2'']" "set [''l1'', ''l2''] \<inter> set [''p1'', ''p2''] = {}"
    by simp_all
  have h4: "\<forall>h\<in>set [''l1'', ''l2''] \<union> set [''p1'', ''p2'']. bound_shape ?A 4 h"
    by (simp add: bound_shape_def)
  have l: "spec_step_loss (Some 0) ?labels (map (\<lambda>h. the (?A h)) [''l1'', ''l2'']) 4 = Some 4"
    by (simp add: spec_step_loss_def spec_retained_def spec_num_losses_def
          spec_summed_loss_def spec_unmasked_def upt_conv_Cons)
  have a: "spec_step_accuracy (Some 0) ?labels (map (\<lambda>h. the (?A h)) [''p1'', ''p2'']) 4
             = Some (1 / 2)"
    by (simp add: spec_step_accuracy_def spec_attempted_def spec_correct_def
          spec_unmasked_def upt_conv_Cons)
  from bert_output_stats_masked_mean[OF h1 h2 h3 h4, of "Some 0"]
  show ?thesis unfolding l a by blast
qed

text \<open>
  Claim C9. On a well-shaped call \<open>bert_output_stats\<close> raises nothing, and its step
  loss and its accuracy are numbers exactly when some position of some label is
  unmasked; when every label equals the ignore value everywhere, both are the undefined
  result of an unguarded division (the mean of an empty array, and 0 / 0).
\<close>

theorem bert_output_stats_defined_iff:
  assumes lab: "labels \<noteq> []" "\<forall>l\<in>set labels. length l = n"
      and los: "losses \<noteq> []"
      and bs: "\<forall>h\<in>set losses \<union> set predictions. bound_shape anchors n h"
  shows "\<exists>step_loss step_accuracy anchors1.
           bert_output_stats labels anchors losses predictions ig
             = Inr ((step_loss, step_accuracy), anchors1) \<and>
           (step_loss \<noteq> None
              \<longleftrightarrow> (\<exists>label\<in>set labels. \<exists>x\<in>set label. spec_unmasked ig x)) \<and>
           (step_accuracy \<noteq> None
              \<longleftrightarrow> (\<exists>label\<in>set labels. \<exists>x\<in>set label. spec_unmasked ig x))"
proof -
  from bert_output_stats_unfold[OF lab los bs, of ig]
  obtain A c where res: "bert_output_stats labels anchors losses predictions ig =
             Inr ((np_mean (map (\<lambda>i. sum_list (map (\<lambda>h. the (A h) ! i) losses)
                                          / of_nat (spec_num_losses ig labels i))
                              (spec_retained ig labels n)),
                   if spec_attempted ig labels n = 0 then None
                   else Some (of_nat c / of_nat (spec_attempted ig labels n))),
                  A)"
    by blast
  have r: "spec_retained ig labels n \<noteq> []
             \<longleftrightarrow> (\<exists>label\<in>set labels. \<exists>x\<in>set label. spec_unmasked ig x)"
    using retained_empty_iff[OF lab(2), of ig] by blast
  have "np_mean (map (\<lambda>i. sum_list (map (\<lambda>h. the (A h) ! i) losses)
                                          / of_nat (spec_num_losses ig labels i))
                              (spec_retained ig labels n)) \<noteq> None
          \<longleftrightarrow> (\<exists>label\<in>set labels. \<exists>x\<in>set label. spec_unmasked ig x)"
    unfolding r[symmetric] by (simp add: np_mean_def)
  moreover have "(if spec_attempted ig labels n = 0 then None
                   else Some (of_nat c / of_nat (spec_attempted ig labels n))) \<noteq> (None :: rat option)
          \<longleftrightarrow> (\<exists>label\<in>set labels. \<exists>x\<in>set label. spec_unmasked ig x)"
    unfolding r[symmetric] attempted_zero_iff[symmetric] by simp
  ultimately show ?thesis using res by blast
qed

text \<open>
  A label array that is all ignore value gives the undefined pair; one unmasked position
  gives two numbers.
\<close>

theorem bert_output_stats_defined_iff_witness:
  "(\<exists>anchors1. bert_output_stats [[0, 0]] [''l'' \<mapsto> [1, 2], ''p'' \<mapsto> [0, 0]]
                   [''l''] [''p''] (Some 0) = Inr ((None, None), anchors1)) \<and>
   (\<exists>x y anchors1. bert_output_stats [[0, 7]] [''l'' \<mapsto> [1, 2], ''p'' \<mapsto> [0, 0]]
                   [''l''] [''p''] (Some 0) = Inr ((Some x, Some y), anchors1))"
proof -
  let ?A = "[''l'' \<mapsto> [1, 2], ''p'' \<mapsto> [0, 0]] :: anchors"
  have h3: "[''l''] \<noteq> []" by simp
  have h4: "\<forall>h\<in>set [''l''] \<union> set [''p'']. bound_shape ?A 2 h"
    by (simp add: bound_shape_def)
  have a1: "[[0, 0]] \<noteq> ([] :: int list list)" "\<forall>l\<in>set [[0, 0 :: int]]. length l = 2"
    by simp_all
  have a2: "[[0, 7]] \<noteq> ([] :: int list list)" "\<forall>l\<in>set [[0, 7 :: int]]. length l = 2"
    by simp_all
  have u1: "\<not> (\<exists>label\<in>set [[0, 0 :: int]]. \<exists>x\<in>set label. spec_unmasked (Some 0) x)"
    by (simp add: spec_unmasked_def)
  have u2: "\<exists>label\<in>set [[0, 7 :: int]]. \<exists>x\<in>set label. spec_unmasked (Some 0) x"
    by (simp add: spec_unmasked_def)
  from bert_output_stats_defined_iff[OF a1 h3 h4, of "Some 0"] u1
  have "\<exists>anchors1. bert_output_stats [[0, 0]] ?A [''l''] [''p''] (Some 0)
          = Inr ((None, None), anchors1)"
    by auto
  moreover from bert_output_stats_defined_iff[OF a2 h3 h4, of "Some 0"] u2
  have "\<exists>x y anchors1. bert_output_stats [[0, 7]] ?A [''l''] [''p''] (Some 0)
          = Inr ((Some x, Some y), anchors1)"
    by (metis option.exhaust)
  ultimately show ?thesis by blast
qed

section \<open>Properties of the latency computation\<close>

lemma last_times_ok:
  "\<forall>(k, ts)\<in>set tbl. ts \<noteq> [] \<Longrightarrow> last_times tbl = Inr (map (\<lambda>(k, ts). (k, last ts)) tbl)"
  by (induction tbl rule: last_times.induct) auto

lemma first_min_in: "first_min kv rest \<in> fst ` set (kv # rest)"
  by (induction kv rest rule: first_min.induct) auto

lemma first_max_in: "first_max kv rest \<in> fst ` set (kv # rest)"
  by (induction kv rest rule: first_max.induct) auto

lemma start_anchor_ok:
  assumes "tbl \<noteq> []" "\<forall>(k, ts)\<in>set tbl. ts \<noteq> []"
  shows "\<exists>k ts. get_timing_start_anchor tbl = Inr k \<and> map_of tbl k = Some ts \<and> ts \<noteq> []"
proof -
  obtain kv rest where m: "map (\<lambda>(k, ts). (k, last ts)) tbl = kv # rest"
    using assms(1) by (cases tbl) auto
  have g: "get_timing_start_anchor tbl = Inr (first_min kv rest)"
    using last_times_ok[OF assms(2)] m by (simp add: get_timing_start_anchor_def)
  have "first_min kv rest \<in> fst ` set (kv # rest)" by (rule first_min_in)
  also have "fst ` set (kv # rest) = fst ` set tbl"
    unfolding m[symmetric] by (force simp: image_iff)
  finally obtain ts where "map_of tbl (first_min kv rest) = Some ts"
    by (metis image_iff weak_map_of_SomeI map_of_eq_None_iff not_None_eq set_map)
  moreover then have "ts \<noteq> []" using assms(2) by (auto dest: map_of_SomeD)
  ultimately show ?thesis using g by blast
qed

lemma end_anchor_ok:
  assumes "tbl \<noteq> []" "\<forall>(k, ts)\<in>set tbl. ts \<noteq> []"
  shows "\<exists>k ts. get_timing_end_anchor tbl = Inr k \<and> map_of tbl k = Some ts \<and> ts \<noteq> []"
proof -
  obtain kv rest where m: "map (\<lambda>(k, ts). (k, last ts)) tbl = kv # rest"
    using assms(1) by (cases tbl) auto
  have g: "get_timing_end_anchor tbl = Inr (first_max kv rest)"
    using last_times_ok[OF assms(2)] m by (simp add: get_timing_end_anchor_def)
  have "first_max kv rest \<in> fst ` set (kv # rest)" by (rule first_max_in)
  also have "fst ` set (kv # rest) = fst ` set tbl"
    unfolding m[symmetric] by (force simp: image_iff)
  finally obtain ts where "map_of tbl (first_max kv rest) = Some ts"
    by (metis image_iff weak_map_of_SomeI map_of_eq_None_iff not_None_eq set_map)
  moreover then have "ts \<noteq> []" using assms(2) by (auto dest: map_of_SomeD)
  ultimately show ?thesis using g by blast
qed

text \<open>
  Claim C7. In low-latency SQuAD inference, with timestamp tables as the callbacks fill
  them (at least one tensor id in each, at least one timestamp per id),
  \<^verbatim>\<open>compute_latency\<close> raises exactly when the number of round trips differs from
  \<^verbatim>\<open>batches_per_step\<close>, the exception is then the RuntimeError, and otherwise it
  returns the mean, the minimum and the maximum of the round trips.
\<close>

theorem compute_latency_raises_iff:
  assumes mode: "low_latency_inference a" "args.task a = ''SQUAD''"
      and st: "start_times \<noteq> []" "\<forall>(k, ts)\<in>set start_times. ts \<noteq> []"
      and et: "end_times \<noteq> []" "\<forall>(k, ts)\<in>set end_times. ts \<noteq> []"
  shows "\<exists>start_id end_id s e.
           get_timing_start_anchor start_times = Inr start_id \<and>
           get_timing_end_anchor end_times = Inr end_id \<and>
           map_of start_times start_id = Some s \<and> map_of end_times end_id = Some e \<and>
           (let rtts = map (\<lambda>v. snd v - fst v) (zip s e) in
              ((\<exists>err. compute_latency a start_times end_times = Inl err)
                 \<longleftrightarrow> int (length rtts) \<noteq> batches_per_step a) \<and>
              (int (length rtts) \<noteq> batches_per_step a
                 \<longrightarrow> compute_latency a start_times end_times = Inl RuntimeError) \<and>
              (int (length rtts) = batches_per_step a
                 \<longrightarrow> compute_latency a start_times end_times
                       = Inr (Some (sum_list rtts / of_int (batches_per_step a)),
                              Some (Min (set rtts)), Some (Max (set rtts)))))"
proof -
  from start_anchor_ok[OF st] obtain sid s where
    s: "get_timing_start_anchor start_times = Inr sid" "map_of start_times sid = Some s" "s \<noteq> []"
    by blast
  from end_anchor_ok[OF et] obtain eid e where
    e: "get_timing_end_anchor end_times = Inr eid" "map_of end_times eid = Some e" "e \<noteq> []"
    by blast
  let ?rtts = "map (\<lambda>v. snd v - fst v) (zip s e)"
  have ne: "?rtts \<noteq> []" using s(3) e(3) by (cases s; cases e) auto
  then have pos: "int (length ?rtts) \<noteq> 0" by simp
  have c: "compute_latency a start_times end_times =
           (if int (length ?rtts) \<noteq> batches_per_step a then Inl RuntimeError
            else Inr (Some (sum_list ?rtts / of_int (batches_per_step a)),
                      Some (Min (set ?rtts)), Some (Max (set ?rtts))))"
    using mode s e ne pos by (auto simp: compute_latency_def Let_def)
  show ?thesis
    apply (rule exI[of _ sid], rule exI[of _ eid], rule exI[of _ s], rule exI[of _ e])
    using s e c by (simp add: Let_def)
qed

text \<open>
  Two inputs and one output with two timestamps each: the start anchor is the input
  whose last timestamp is smallest; with \<^verbatim>\<open>batches_per_step\<close> 2 the result is the
  mean 5, minimum 4 and maximum 6, with 3 the call raises.
\<close>

theorem compute_latency_raises_iff_witness:
  "compute_latency squad_args [(''indices'', [1, 3]), (''positions'', [2, 4])]
     [(''logits'', [5, 9])] = Inr (Some 5, Some 4, Some 6) \<and>
   compute_latency (squad_args\<lparr>batches_per_step := 3\<rparr>)
     [(''indices'', [1, 3]), (''positions'', [2, 4])] [(''logits'', [5, 9])]
     = Inl RuntimeError"
proof -
  let ?st = "[(''indices'', [1, 3]), (''positions'', [2, 4])] :: times"
  let ?et = "[(''logits'', [5, 9])] :: times"
  have sa: "get_timing_start_anchor ?st = Inr ''indices''"
    by (simp add: get_timing_start_anchor_def)
  have ea: "get_timing_end_anchor ?et = Inr ''logits''"
    by (simp add: get_timing_end_anchor_def)
  have h: "?st \<noteq> []" "\<forall>(k, ts)\<in>set ?st. ts \<noteq> []" "?et \<noteq> []" "\<forall>(k, ts)\<in>set ?et. ts \<noteq> []"
    by simp_all
  have m2: "low_latency_inference squad_args" "args.task squad_args = ''SQUAD''"
    by (simp_all add: squad_args_def)
  have m3: "low_latency_inference (squad_args\<lparr>batches_per_step := 3\<rparr>)"
           "args.task (squad_args\<lparr>batches_per_step := 3\<rparr>) = ''SQUAD''"
    by (simp_all add: squad_args_def)
  from compute_latency_raises_iff[OF m2 h]
  have "compute_latency squad_args ?st ?et = Inr (Some 5, Some 4, Some 6)"
    unfolding sa ea by (auto simp: squad_args_def Let_def)
  moreover from compute_latency_raises_iff[OF m3 h]
  have "compute_latency (squad_args\<lparr>batches_per_step := 3\<rparr>) ?st ?et = Inl RuntimeError"
    unfolding sa ea by (auto simp: squad_args_def Let_def)
  ultimately show ?thesis by blast
qed

section \<open>Properties of the metrics aggregator\<close>

text \<open>
  Claim C8. \<^verbatim>\<open>report_stats\<close> leaves the \<^verbatim>\<open>Iteration\<close> object as it found it,
  whether it logs or raises, and the throughput it reports is the average of
  \<^verbatim>\<open>samples_per_step\<close> divided by each recorded duration: the object has no
  throughput field to read.
\<close>

theorem report_stats_frame:
  "snd (report_stats it) = it \<and>
   (\<forall>r. fst (report_stats it) = Inr r \<longrightarrow>
      r_throughput r
        = np_average (map (\<lambda>d. if d = 0 then None else Some (of_int (samples_per_step it) / d))
                        (items (durations it))))"
  by (auto simp: report_stats_def throughput_def)

text \<open>
  An object with two samples per step and the durations 2 and 4 reports the throughput
  (1 + 1/2) / 2 and is unchanged.
\<close>

theorem report_stats_frame_witness:
  "\<exists>it0 r. Iteration_init squad_args 2 10 (Some 3) = Inr it0 \<and>
     snd (report_stats (it0\<lparr>durations := \<lparr>maxlen = 3, items = [2, 4]\<rparr>\<rparr>))
       = it0\<lparr>durations := \<lparr>maxlen = 3, items = [2, 4]\<rparr>\<rparr> \<and>
     fst (report_stats (it0\<lparr>durations := \<lparr>maxlen = 3, items = [2, 4]\<rparr>\<rparr>)) = Inr r \<and>
     r_throughput r = Some (3 / 4)"
proof -
  obtain it0 where i: "Iteration_init squad_args 2 10 (Some 3) = Inr it0"
    by (simp add: Iteration_init_def squad_args_def Let_def)
  let ?it = "it0\<lparr>durations := \<lparr>maxlen = 3, items = [2, 4]\<rparr>\<rparr>"
  have s: "samples_per_step ?it = 2" "steps_per_epoch ?it = 10"
    using i by (auto simp: Iteration_init_def squad_args_def Let_def)
  obtain r where r: "fst (report_stats ?it) = Inr r"
    using s by (simp add: report_stats_def)
  from report_stats_frame[of ?it] r
  have "snd (report_stats ?it) = ?it"
    and "r_throughput r
        = np_average (map (\<lambda>d. if d = 0 then None else Some (of_int (samples_per_step ?it) / d))
                        (items (durations ?it)))"
    by blast+
  then have "snd (report_stats ?it) = ?it" "r_throughput r = Some (3 / 4)"
    using s by (simp_all add: np_average_def)
  with i r show ?thesis by blast
qed

lemma length_last_n: "length (last_n c xs) \<le> c"
  by (simp add: last_n_def)

lemma window_is_append:
  assumes "window_is cap w xs"
  shows "window_is cap (deque_append w x) (xs @ [x])"
proof -
  have m: "maxlen w = cap" and i: "items w = drop (length xs - cap) xs"
    using assms by (simp_all add: window_is_def last_n_def)
  show ?thesis
  proof (cases "length xs < cap")
    case True
    then show ?thesis using m i
      by (simp add: window_is_def last_n_def deque_append_def Let_def)
  next
    case False
    then have ge: "cap \<le> length xs" by simp
    show ?thesis
    proof (cases "cap = 0")
      case True
      then show ?thesis using m i
        by (simp add: window_is_def last_n_def deque_append_def Let_def)
    next
      case False
      then have lt: "length xs - cap < length xs" using ge by simp
      have d: "drop (length xs - cap) xs \<noteq> []" using lt by simp
      have "tl (drop (length xs - cap) xs @ [x]) = drop (Suc (length xs - cap)) xs @ [x]"
        using d by (simp add: drop_Suc tl_drop)
      moreover have "Suc (length xs) - cap = Suc (length xs - cap)" using ge by simp
      ultimately show ?thesis using m i ge \<open>cap \<noteq> 0\<close>
        by (simp add: window_is_def last_n_def deque_append_def Let_def)
    qed
  qed
qed

lemma window_is_length: "window_is cap w xs \<Longrightarrow> length (items w) \<le> cap"
  by (simp add: window_is_def length_last_n)

lemma bert_pretraining_stats_shape:
  "bert_pretraining_stats labels anchors losses predictions = Inr ((loss, accuracy), anchors1)
     \<Longrightarrow> \<exists>l0 l1 a0 a1. loss = [l0, l1] \<and> accuracy = [a0, a1]"
  by (auto simp: bert_pretraining_stats_def split: list.splits sum.splits prod.splits)

lemma add_stats_step:
  assumes h: "windows_hold cap it ds cs ss"
      and r: "add_stats it duration hw_cycles labels anchors losses predictions
                = Inr (it1, anchors1, written)"
  shows "\<exists>s. call_stats (Iteration.task it)
                (duration, hw_cycles, labels, anchors, losses, predictions) = Inr s \<and>
             windows_hold cap it1 (ds @ [duration])
               (cs @ call_cycles (duration, hw_cycles, labels, anchors, losses, predictions))
               (ss @ [s]) \<and>
             Iteration.task it1 = Iteration.task it"
proof -
  let ?it1 = "it\<lparr>durations := deque_append (durations it) duration\<rparr>"
  let ?it2 = "case hw_cycles of None \<Rightarrow> ?it1
              | Some c \<Rightarrow> if c \<noteq> 0 then ?it1\<lparr>cycles := deque_append (cycles ?it1) c\<rparr> else ?it1"
  have d: "window_is cap (durations ?it2) (ds @ [duration])"
    using h by (auto simp: windows_hold_def intro: window_is_append split: option.splits)
  have c: "window_is cap (cycles ?it2)
             (cs @ call_cycles (duration, hw_cycles, labels, anchors, losses, predictions))"
    using h by (auto simp: windows_hold_def call_cycles_def intro: window_is_append
                     split: option.splits)
  have t: "Iteration.task ?it2 = Iteration.task it" by (simp split: option.splits)
  have rest: "mlm_losses ?it2 = mlm_losses it" "nsp_losses ?it2 = nsp_losses it"
     "mlm_accuracies ?it2 = mlm_accuracies it" "nsp_accuracies ?it2 = nsp_accuracies it"
     "squad_losses ?it2 = squad_losses it" "squad_accuracies ?it2 = squad_accuracies it"
    by (simp_all split: option.splits)
  show ?thesis
  proof (cases "Iteration.task it = ''PRETRAINING''")
    case True
    from r True t obtain loss accuracy where
      st: "bert_pretraining_stats labels anchors losses predictions
             = Inr ((loss, accuracy), anchors1)"
      by (auto simp: add_stats_def Let_def split: sum.splits prod.splits list.splits)
    from bert_pretraining_stats_shape[OF st] obtain l0 l1 a0 a1 where
      la: "loss = [l0, l1]" "accuracy = [a0, a1]" by blast
    have it1: "it1 = ?it2\<lparr>mlm_losses := deque_append (mlm_losses ?it2) l0,
                         nsp_losses := deque_append (nsp_losses ?it2) l1,
                         mlm_accuracies := deque_append (mlm_accuracies ?it2) a0,
                         nsp_accuracies := deque_append (nsp_accuracies ?it2) a1\<rparr>"
      using r True t st la by (simp add: add_stats_def Let_def)
    have cs: "call_stats (Iteration.task it)
                (duration, hw_cycles, labels, anchors, losses, predictions)
                = Inr [(l0, a0), (l1, a1)]"
      using True st la by (simp add: call_stats_def)
    have "windows_hold cap it1 (ds @ [duration])
               (cs @ call_cycles (duration, hw_cycles, labels, anchors, losses, predictions))
               (ss @ [[(l0, a0), (l1, a1)]])"
      using h True d c t unfolding it1 windows_hold_def
      by (auto simp: rest dest: window_is_append split: option.splits)
    moreover have "Iteration.task it1 = Iteration.task it" unfolding it1 using t by simp
    ultimately show ?thesis using cs by blast
  next
    case False
    from r False t obtain loss accuracy where
      st: "bert_output_stats labels anchors losses predictions None
             = Inr ((loss, accuracy), anchors1)"
      by (auto simp: add_stats_def Let_def split: sum.splits prod.splits list.splits)
    have it1: "it1 = ?it2\<lparr>squad_losses := deque_append (squad_losses ?it2) loss,
                         squad_accuracies := deque_append (squad_accuracies ?it2) accuracy\<rparr>"
      using r False t st by (simp add: add_stats_def Let_def)
    have cs: "call_stats (Iteration.task it)
                (duration, hw_cycles, labels, anchors, losses, predictions)
                = Inr [(loss, accuracy)]"
      using False st by (simp add: call_stats_def)
    have "windows_hold cap it1 (ds @ [duration])
               (cs @ call_cycles (duration, hw_cycles, labels, anchors, losses, predictions))
               (ss @ [[(loss, accuracy)]])"
      using h False d c t unfolding it1 windows_hold_def
      by (auto simp: rest dest: window_is_append split: option.splits)
    moreover have "Iteration.task it1 = Iteration.task it" unfolding it1 using t by simp
    ultimately show ?thesis using cs by blast
  qed
qed

lemma add_stats_seq_windows:
  "windows_hold cap it ds cs ss \<Longrightarrow> add_stats_seq it calls = Inr it' \<Longrightarrow>
     \<exists>stats. map (call_stats (Iteration.task it)) calls = map Inr stats \<and>
       windows_hold cap it' (ds @ map fst calls) (cs @ concat (map call_cycles calls))
         (ss @ stats)"
proof (induction calls arbitrary: it ds cs ss)
  case Nil
  then show ?case by simp
next
  case (Cons call calls)
  obtain duration hw_cycles labels anchors losses predictions where
    call: "call = (duration, hw_cycles, labels, anchors, losses, predictions)"
    by (cases call) auto
  from Cons.prems(2) obtain it1 anchors1 written where
    r: "add_stats it duration hw_cycles labels anchors losses predictions
          = Inr (it1, anchors1, written)"
    and rest: "add_stats_seq it1 calls = Inr it'"
    unfolding call by (auto split: sum.splits prod.splits)
  from add_stats_step[OF Cons.prems(1) r] obtain s where
    s: "call_stats (Iteration.task it) call = Inr s"
       "windows_hold cap it1 (ds @ [duration]) (cs @ call_cycles call) (ss @ [s])"
       "Iteration.task it1 = Iteration.task it"
    unfolding call by blast
  from Cons.IH[OF s(2) rest] obtain stats where
    st: "map (call_stats (Iteration.task it1)) calls = map Inr stats"
        "windows_hold cap it' ((ds @ [duration]) @ map fst calls)
           ((cs @ call_cycles call) @ concat (map call_cycles calls)) ((ss @ [s]) @ stats)"
    by blast
  have "map (call_stats (Iteration.task it)) (call # calls) = map Inr (s # stats)"
    using s(1,3) st(1) by simp
  moreover have "windows_hold cap it' (ds @ map fst (call # calls))
       (cs @ concat (map call_cycles (call # calls))) (ss @ (s # stats))"
    using st(2) by (simp add: call)
  ultimately show ?case by blast
qed

lemma Iteration_init_windows:
  assumes "Iteration_init a bps spe rs = Inr it0"
  shows "windows_hold (nat (case rs of None \<Rightarrow> spe | Some r \<Rightarrow> r)) it0 [] [] [] \<and>
         Iteration.task it0 = args.task a"
  using assms
  by (auto simp: Iteration_init_def Let_def windows_hold_def window_is_def last_n_def
           split: if_splits)

text \<open>
  Claim C6. After any sequence of \<^verbatim>\<open>add_stats\<close> calls on a freshly constructed
  \<^verbatim>\<open>Iteration\<close> object, every rolling window holds at most the configured capacity
  (\<^verbatim>\<open>recording_steps\<close>, or \<^verbatim>\<open>steps_per_epoch\<close> when none is given) and holds the
  last values inserted into it, in insertion order: the oldest are evicted first.
\<close>

theorem rolling_windows_bounded:
  assumes init: "Iteration_init a bps spe rs = Inr it0"
      and run: "add_stats_seq it0 calls = Inr it"
  shows "\<exists>stats.
           map (call_stats (args.task a)) calls = map Inr stats \<and>
           windows_hold (nat (case rs of None \<Rightarrow> spe | Some r \<Rightarrow> r)) it
             (map fst calls) (concat (map call_cycles calls)) stats \<and>
           list_all (\<lambda>n. n \<le> nat (case rs of None \<Rightarrow> spe | Some r \<Rightarrow> r))
             [length (items (durations it)), length (items (cycles it)),
              length (items (mlm_losses it)), length (items (nsp_losses it)),
              length (items (mlm_accuracies it)), length (items (nsp_accuracies it)),
              length (items (squad_losses it)), length (items (squad_accuracies it))]"
proof -
  let ?cap = "nat (case rs of None \<Rightarrow> spe | Some r \<Rightarrow> r)"
  from Iteration_init_windows[OF init]
  have h0: "windows_hold ?cap it0 [] [] []" and t: "Iteration.task it0 = args.task a"
    by simp_all
  from add_stats_seq_windows[OF h0 run] t obtain stats where
    st: "map (call_stats (args.task a)) calls = map Inr stats"
        "windows_hold ?cap it (map fst calls) (concat (map call_cycles calls)) stats"
    by auto
  have "list_all (\<lambda>n. n \<le> ?cap)
             [length (items (durations it)), length (items (cycles it)),
              length (items (mlm_losses it)), length (items (nsp_losses it)),
              length (items (mlm_accuracies it)), length (items (nsp_accuracies it)),
              length (items (squad_losses it)), length (items (squad_accuracies it))]"
    using st(2) by (auto simp: windows_hold_def dest: window_is_length split: if_splits)
  with st show ?thesis by blast
qed

lemma example_call_stats:
  "bert_output_stats [[1]] [''l'' \<mapsto> [x], ''p'' \<mapsto> [1]] [''l''] [''p''] None
     = Inr ((Some x, Some 1), [''p'' \<mapsto> [1], ''l'' \<mapsto> [x]])"
  by (simp add: bert_output_stats_def padding_mask_def combined_loss_of_def np_select_def
        np_mean_def Let_def)

text \<open>
  Capacity 3 and five calls with the durations 1 to 5 and the losses 10 to 50: the
  windows hold the last three, oldest first.
\<close>

theorem rolling_windows_bounded_witness:
  "\<exists>it0 it. Iteration_init squad_args 2 10 (Some 3) = Inr it0 \<and>
      add_stats_seq it0 (map example_call [1, 2, 3, 4, 5]) = Inr it \<and>
      items (durations it) = [3, 4, 5] \<and>
      items (squad_losses it) = [Some 30, Some 40, Some 50] \<and>
      length (items (squad_accuracies it)) = 3"
proof -
  obtain it0 where i: "Iteration_init squad_args 2 10 (Some 3) = Inr it0"
    by (simp add: Iteration_init_def squad_args_def Let_def)
  have t: "Iteration.task it0 = ''SQUAD''"
    using i by (auto simp: Iteration_init_def squad_args_def Let_def)
  obtain it where r: "add_stats_seq it0 (map example_call [1, 2, 3, 4, 5]) = Inr it"
    using t by (simp add: example_call_def add_stats_def example_call_stats Let_def)
  have cs: "map (call_stats (args.task squad_args)) (map example_call [1, 2, 3, 4, 5])
              = map Inr [[(Some 10, Some 1)], [(Some 20, Some 1)], [(Some 30, Some 1)],
                         [(Some 40, Some 1)], [(Some 50, Some 1)]]"
    by (simp add: call_stats_def example_call_def squad_args_def example_call_stats)
  from rolling_windows_bounded[OF i r] obtain stats where
    st: "map (call_stats (args.task squad_args)) (map example_call [1, 2, 3, 4, 5])
           = map Inr stats"
        "windows_hold (nat (case Some 3 of None \<Rightarrow> 10 | Some r \<Rightarrow> r)) it
             (map fst (map example_call [1, 2, 3, 4, 5]))
             (concat (map call_cycles (map example_call [1, 2, 3, 4, 5]))) stats"
    by blast
  have stats: "stats = [[(Some 10, Some 1)], [(Some 20, Some 1)], [(Some 30, Some 1)],
                         [(Some 40, Some 1)], [(Some 50, Some 1)]]"
    using st(1) unfolding cs by (auto simp: Cons_eq_map_conv)
  have t': "Iteration.task it \<noteq> ''PRETRAINING''"
    using r t by (simp add: example_call_def add_stats_def example_call_stats Let_def) auto
  have "items (durations it) = [3, 4, 5]"
       "items (squad_losses it) = [Some 30, Some 40, Some 50]"
       "length (items (squad_accuracies it)) = 3"
    using st(2) t' unfolding stats
    by (simp_all add: windows_hold_def window_is_def last_n_def example_call_def)
  with i r show ?thesis by blast
qed

section \<open>Properties of \<^verbatim>\<open>bert_process_data\<close>\<close>

lemma example_iteration_init: "Iteration_init squad_args 2 10 (Some 3) = Inr example_iteration"
  by (simp add: Iteration_init_def squad_args_def example_iteration_def Let_def)

lemma add_stats_frame:
  assumes "add_stats it duration hw_cycles labels anchors losses predictions
             = Inr (it1, anchors1, written)"
  shows "count it1 = count it \<and> epoch it1 = epoch it \<and> start_epoch it1 = start_epoch it \<and>
         Iteration.epochs_per_save it1 = Iteration.epochs_per_save it \<and>
         Iteration.steps_per_log it1 = Iteration.steps_per_log it \<and>
         steps_per_epoch it1 = steps_per_epoch it \<and>
         Iteration.task it1 = Iteration.task it \<and> written \<noteq> []"
  using assms
  by (auto simp: add_stats_def Let_def split: if_splits sum.splits prod.splits list.splits
        option.splits)

lemma bert_process_data_skip:
  "labels_data_of data labels = Inr labels_data \<Longrightarrow> \<not> any_label labels_data \<Longrightarrow>
     bert_process_data a env labels data losses predictions w = Inr w"
  by (simp add: bert_process_data_def)

lemma bert_process_data_processed:
  assumes ld: "labels_data_of data labels = Inr labels_data" "any_label labels_data"
      and r: "bert_process_data a env labels data losses predictions w = Inr w'"
  shows "count (iteration w') = count (iteration w) + 1 \<and>
         engine_runs w' = engine_runs w + 1 \<and>
         (\<exists>written. written \<noteq> [] \<and> scalars w' = scalars w @ written) \<and>
         saves w' = saves w \<and>
         epoch (iteration w') = epoch (iteration w) \<and>
         start_epoch (iteration w') = start_epoch (iteration w) \<and>
         Iteration.epochs_per_save (iteration w') = Iteration.epochs_per_save (iteration w) \<and>
         Iteration.steps_per_log (iteration w') = Iteration.steps_per_log (iteration w) \<and>
         steps_per_epoch (iteration w') = steps_per_epoch (iteration w) \<and>
         Iteration.task (iteration w') = Iteration.task (iteration w)"
proof -
  let ?an = "session_run env data (anchor_buffers w)"
  let ?hw = "if report_hw_cycle_count a then Some (cycle_count env) else None"
  from r ld obtain it1 anchors2 written where
    a: "add_stats (iteration w) (run_duration env) ?hw labels_data ?an losses predictions
          = Inr (it1, anchors2, written)"
    by (auto simp: bert_process_data_def Let_def split: if_splits sum.splits prod.splits)
  note f = add_stats_frame[OF a]
  from r ld a f show ?thesis
    by (auto simp: bert_process_data_def Let_def split: if_splits option.splits sum.splits)
qed

lemma any_label_iff: "any_label ld \<longleftrightarrow> (\<exists>label\<in>set ld. \<exists>x\<in>set label. x \<noteq> 0)"
  by (simp add: any_label_def list_ex_iff)

text \<open>
  Claim C1, as the code has it. A batch whose label fields are zero everywhere is
  skipped: \<^verbatim>\<open>bert_process_data\<close> returns at its guard and the world is as before (no
  engine run, no metrics, no scalar, and the step counter unchanged, since the increment
  is the last statement of the function). A batch with a non-zero label that is
  processed to the end increments the counter by exactly 1, runs the engine once and
  writes scalars.
\<close>

theorem bert_process_data_skip_and_count:
  assumes ld: "labels_data_of data labels = Inr labels_data"
  shows "((\<forall>label\<in>set labels_data. \<forall>x\<in>set label. x = 0) \<longrightarrow>
            bert_process_data a env labels data losses predictions w = Inr w) \<and>
         ((\<exists>label\<in>set labels_data. \<exists>x\<in>set label. x \<noteq> 0) \<longrightarrow>
            (\<forall>w'. bert_process_data a env labels data losses predictions w = Inr w' \<longrightarrow>
               count (iteration w') = count (iteration w) + 1 \<and>
               engine_runs w' = engine_runs w + 1 \<and>
               length (scalars w') > length (scalars w)))"
proof (intro conjI impI allI)
  assume "\<forall>label\<in>set labels_data. \<forall>x\<in>set label. x = 0"
  then have "\<not> any_label labels_data" by (simp add: any_label_iff)
  with ld show "bert_process_data a env labels data losses predictions w = Inr w"
    by (rule bert_process_data_skip)
next
  fix w'
  assume "\<exists>label\<in>set labels_data. \<exists>x\<in>set label. x \<noteq> 0"
     and r: "bert_process_data a env labels data losses predictions w = Inr w'"
  then have al: "any_label labels_data" by (simp add: any_label_iff)
  note p = bert_process_data_processed[OF ld al r]
  from p show "count (iteration w') = count (iteration w) + 1" by blast
  from p show "engine_runs w' = engine_runs w + 1" by blast
  from p obtain written where "written \<noteq> []" "scalars w' = scalars w @ written" by blast
  then show "length (scalars w') > length (scalars w)" by simp
qed

text \<open>
  The claim as stated, that the counter increments by 1 for a skipped batch, fails on an
  all-zero batch: the call returns the world unchanged.
\<close>

theorem bert_process_data_skip_counterexample:
  "\<not> (\<exists>w'. bert_process_data squad_args example_env [''start_labels'']
               [''start_labels'' \<mapsto> [0, 0]] [''l''] [''p''] example_world = Inr w' \<and>
             count (iteration w') = count (iteration example_world) + 1)"
  by (simp add: bert_process_data_def any_label_def)

text \<open>An all-zero batch and a batch with the label 1, on the example world.\<close>

theorem bert_process_data_skip_and_count_witness:
  "bert_process_data squad_args example_env [''start_labels'']
     [''start_labels'' \<mapsto> [0, 0]] [''l''] [''p''] example_world = Inr example_world \<and>
   (\<exists>w'. bert_process_data squad_args example_env [''start_labels'']
            [''start_labels'' \<mapsto> [1]] [''l''] [''p''] example_world = Inr w' \<and>
          count (iteration w') = 1 \<and> engine_runs w' = 1 \<and> scalars w' \<noteq> [])"
proof -
  have l0: "labels_data_of [''start_labels'' \<mapsto> [0, 0]] [''start_labels''] = Inr [[0, 0]]"
    and l1: "labels_data_of [''start_labels'' \<mapsto> [1]] [''start_labels''] = Inr [[1]]"
    by simp_all
  have z: "\<forall>label\<in>set [[0, 0 :: int]]. \<forall>x\<in>set label. x = 0" by simp
  have nz: "\<exists>label\<in>set [[1 :: int]]. \<exists>x\<in>set label. x \<noteq> 0" by simp
  have s: "bert_output_stats [[1]] [''l'' \<mapsto> [10], ''p'' \<mapsto> [1]] [''l''] [''p''] None
     = Inr ((Some 10, Some 1), [''p'' \<mapsto> [1], ''l'' \<mapsto> [10]])"
    by (simp add: bert_output_stats_def padding_mask_def combined_loss_of_def np_select_def
          np_mean_def Let_def)
  obtain w' where r: "bert_process_data squad_args example_env [''start_labels'']
            [''start_labels'' \<mapsto> [1]] [''l''] [''p''] example_world = Inr w'"
    by (simp add: bert_process_data_def any_label_def squad_args_def example_env_def
          example_world_def example_iteration_def add_stats_def s report_stats_def Let_def)
  from bert_process_data_skip_and_count[OF l0, of squad_args example_env "[''l'']" "[''p'']"
         example_world] z
  have a: "bert_process_data squad_args example_env [''start_labels'']
     [''start_labels'' \<mapsto> [0, 0]] [''l''] [''p''] example_world = Inr example_world"
    by blast
  from bert_process_data_skip_and_count[OF l1, of squad_args example_env "[''l'']" "[''p'']"
         example_world] nz r
  have "count (iteration w') = count (iteration example_world) + 1"
       "engine_runs w' = engine_runs example_world + 1"
       "length (scalars w') > length (scalars example_world)"
    by blast+
  then have "count (iteration w') = 1" "engine_runs w' = 1" "scalars w' \<noteq> []"
    by (auto simp: example_world_def example_iteration_def)
  with a r show ?thesis by blast
qed

section \<open>Properties of the training loop\<close>

lemma save_model_and_stats_iteration [simp]:
  "iteration (save_model_and_stats a w s e f) = iteration w"
  by (simp add: save_model_and_stats_def)

lemma spec_step_saves_0 [simp]: "spec_step_saves a e c 0 = []"
  by (simp add: spec_step_saves_def)












end
